theory Spec2Isabelle
  imports Complex_Main "HOL-Library.AList"
begin

section \<open>Python values\<close>

text \<open>
  Python strings are modelled as \<open>string\<close> over ASCII; \<open>str.lower\<close> acts on the ASCII
  letters, and the Unicode case mappings of other characters are outside the model.
  Exceptions are values of \<open>py_error\<close>, carrying the text that \<open>str(e)\<close> gives.
  A random draw is a natural number handed in by the caller of the model:
  \<open>random.choice(seq)\<close> with the draw \<open>r\<close> picks the element at index \<open>r mod len(seq)\<close>
  and raises IndexError on an empty sequence.
\<close>

datatype py_error = IndexError string | TypeError string | AttributeError string | KeyError string

fun error_message :: "py_error \<Rightarrow> string" where
  "error_message (IndexError m) = m"
| "error_message (TypeError m) = m"
| "error_message (AttributeError m) = m"
| "error_message (KeyError m) = m"

definition lower_char :: "char \<Rightarrow> char" where
  "lower_char c = (let n = (of_char c :: nat) in
     if 65 \<le> n \<and> n \<le> 90 then ''abcdefghijklmnopqrstuvwxyz'' ! (n - 65) else c)"

definition lower :: "string \<Rightarrow> string" where
  "lower s = map lower_char s"

text \<open>\<open>d.get(k, default)\<close> on a dictionary kept as an association list.\<close>

definition dict_get_default :: "('k \<times> 'v) list \<Rightarrow> 'k \<Rightarrow> 'v \<Rightarrow> 'v" where
  "dict_get_default d k dflt = (case map_of d k of None \<Rightarrow> dflt | Some v \<Rightarrow> v)"

text \<open>Decimal digits of a non-negative integer, and \<open>str\<close> of a Python int.\<close>

fun nat_str :: "nat \<Rightarrow> string" where
  "nat_str n = (if n < 10 then [''0123456789'' ! n]
                else nat_str (n div 10) @ [''0123456789'' ! (n mod 10)])"

declare nat_str.simps [simp del]

definition int_str :: "int \<Rightarrow> string" where
  "int_str i = (if i < 0 then CHR ''-'' # nat_str (nat (- i)) else nat_str (nat i))"

text \<open>A text between single quotes, and between double quotes.\<close>

definition sq :: "string \<Rightarrow> string" where
  "sq s = [CHR 0x27] @ s @ [CHR 0x27]"

definition dq :: "string \<Rightarrow> string" where
  "dq s = [CHR 0x22] @ s @ [CHR 0x22]"

text \<open>\<open>sep.join(parts)\<close>\<close>

fun join :: "string \<Rightarrow> string list \<Rightarrow> string" where
  "join sep [] = []"
| "join sep [x] = x"
| "join sep (x # y # ys) = x @ sep @ join sep (y # ys)"

text \<open>\<open>needle in haystack\<close> on strings.\<close>

fun contains_str :: "string \<Rightarrow> string \<Rightarrow> bool" where
  "contains_str needle [] = (needle = [])"
| "contains_str needle (c # cs) =
     (take (length needle) (c # cs) = needle \<or> contains_str needle cs)"

text \<open>\<open>s.split(sep)\<close> for a one-character separator.\<close>

fun split_on :: "char \<Rightarrow> string \<Rightarrow> string list" where
  "split_on sep [] = [[]]"
| "split_on sep (c # cs) =
     (if c = sep then [] # split_on sep cs
      else (case split_on sep cs of [] \<Rightarrow> [[c]] | w # ws \<Rightarrow> (c # w) # ws))"

text \<open>
  \<open>random.shuffle(x)\<close>: for \<open>i\<close> from \<open>len(x) - 1\<close> down to 1, swap \<open>x[i]\<close> with
  \<open>x[j]\<close>, \<open>j\<close> drawn below \<open>i + 1\<close>. The draw used at position \<open>i\<close> is \<open>rs i\<close>.
\<close>

fun shuffle_loop :: "nat \<Rightarrow> (nat \<Rightarrow> nat) \<Rightarrow> 'a list \<Rightarrow> 'a list" where
  "shuffle_loop 0 rs xs = xs"
| "shuffle_loop (Suc i) rs xs =
     (let j = rs (Suc i) mod (Suc i + 1)
      in shuffle_loop i rs (xs[Suc i := xs ! j, j := xs ! Suc i]))"

definition shuffle :: "'a list \<Rightarrow> (nat \<Rightarrow> nat) \<Rightarrow> 'a list" where
  "shuffle xs rs = shuffle_loop (length xs - 1) rs xs"

text \<open>\<open>random.uniform(a, b)\<close> is \<open>a + (b - a) * random()\<close>; \<open>u\<close> is the value of \<open>random()\<close>.\<close>

definition uniform :: "rat \<Rightarrow> rat \<Rightarrow> rat \<Rightarrow> rat" where
  "uniform a b u = a + (b - a) * u"

definition choice :: "'a list \<Rightarrow> nat \<Rightarrow> py_error + 'a" where
  "choice xs r = (if xs = [] then Inl (IndexError ''Cannot choose from an empty sequence'')
                  else Inr (xs ! (r mod length xs)))"

section \<open>proxy\_pool.py\<close>

subsection \<open>ProxyLocation\<close>

record proxy_location =
  loc_state :: string
  loc_city :: "string option"

text \<open>\<open>__init__\<close>: the state is lower-cased; a city that is None or empty becomes None.\<close>

definition ProxyLocation :: "string \<Rightarrow> string option \<Rightarrow> proxy_location" where
  "ProxyLocation st c =
     \<lparr>loc_state = lower st,
      loc_city = (case c of None \<Rightarrow> None | Some c' \<Rightarrow> if c' = [] then None else Some (lower c'))\<rparr>"

text \<open>\<open>__str__\<close>: the canonical string of a location.\<close>

definition location_str :: "proxy_location \<Rightarrow> string" where
  "location_str l =
     (case loc_city l of
        None \<Rightarrow> ''us-'' @ loc_state l
      | Some c \<Rightarrow> if c = [] then ''us-'' @ loc_state l else ''us-'' @ loc_state l @ ''-'' @ c)"

subsection \<open>ProxyPool\<close>

definition LOCATIONS :: "proxy_location list" where
  "LOCATIONS =
    [ProxyLocation ''ca'' (Some ''losangeles''),
     ProxyLocation ''ca'' (Some ''sanfrancisco''),
     ProxyLocation ''ca'' (Some ''sandiego''),
     ProxyLocation ''wa'' (Some ''seattle''),
     ProxyLocation ''or'' (Some ''portland''),
     ProxyLocation ''ny'' (Some ''newyork''),
     ProxyLocation ''ma'' (Some ''boston''),
     ProxyLocation ''dc'' (Some ''washington''),
     ProxyLocation ''fl'' (Some ''miami''),
     ProxyLocation ''ga'' (Some ''atlanta''),
     ProxyLocation ''il'' (Some ''chicago''),
     ProxyLocation ''tx'' (Some ''austin''),
     ProxyLocation ''tx'' (Some ''dallas''),
     ProxyLocation ''co'' (Some ''denver''),
     ProxyLocation ''nv'' (Some ''lasvegas''),
     ProxyLocation ''az'' (Some ''phoenix''),
     ProxyLocation ''pa'' (Some ''philadelphia''),
     ProxyLocation ''tx'' (Some ''houston''),
     ProxyLocation ''oh'' (Some ''columbus''),
     ProxyLocation ''mi'' (Some ''detroit'')]"

record proxy_pool =
  current_index :: nat
  used_locations :: "string set"

text \<open>\<open>ProxyPool.__init__\<close>\<close>

definition new_pool :: proxy_pool where
  "new_pool = \<lparr>current_index = 0, used_locations = {}\<rparr>"

text \<open>
  \<open>get_next_location\<close>: the read \<open>LOCATIONS[current_index]\<close> raises IndexError out of
  range; the cursor then advances modulo the catalog length.
\<close>

definition get_next_location :: "proxy_pool \<Rightarrow> py_error + (proxy_location \<times> proxy_pool)" where
  "get_next_location p =
     (if current_index p < length LOCATIONS
      then Inr (LOCATIONS ! current_index p,
                p\<lparr>current_index := (current_index p + 1) mod length LOCATIONS\<rparr>)
      else Inl (IndexError ''list index out of range''))"

text \<open>
  \<open>get_random_location\<close>, with the draw \<open>r\<close> of \<open>random.choice\<close>: the candidates are the
  catalog entries whose canonical string is not in \<open>used_locations\<close>; when there is none
  the set is cleared and the candidates are the whole catalog.
\<close>

definition get_random_location ::
  "nat \<Rightarrow> proxy_pool \<Rightarrow> py_error + (proxy_location \<times> proxy_pool)" where
  "get_random_location r p =
     (let available = filter (\<lambda>loc. location_str loc \<notin> used_locations p) LOCATIONS;
          used = (if available = [] then {} else used_locations p);
          available = (if available = [] then LOCATIONS else available)
      in case choice available r of
           Inl e \<Rightarrow> Inl e
         | Inr location \<Rightarrow>
             Inr (location, p\<lparr>used_locations := insert (location_str location) used\<rparr>))"

text \<open>A sequence of round-robin calls, returning the locations in call order.\<close>

fun next_locations :: "nat \<Rightarrow> proxy_pool \<Rightarrow> py_error + (proxy_location list \<times> proxy_pool)" where
  "next_locations 0 p = Inr ([], p)"
| "next_locations (Suc n) p =
     (case get_next_location p of
        Inl e \<Rightarrow> Inl e
      | Inr (l, p') \<Rightarrow>
          (case next_locations n p' of
             Inl e \<Rightarrow> Inl e
           | Inr (ls, p'') \<Rightarrow> Inr (l # ls, p'')))"

text \<open>A sequence of randomized calls, one draw per call.\<close>

fun random_locations ::
  "nat list \<Rightarrow> proxy_pool \<Rightarrow> py_error + (proxy_location list \<times> proxy_pool)" where
  "random_locations [] p = Inr ([], p)"
| "random_locations (r # rs) p =
     (case get_random_location r p of
        Inl e \<Rightarrow> Inl e
      | Inr (l, p') \<Rightarrow>
          (case random_locations rs p' of
             Inl e \<Rightarrow> Inl e
           | Inr (ls, p'') \<Rightarrow> Inr (l # ls, p'')))"

subsection \<open>OxyLabsProxy\<close>

record oxylabs_proxy =
  username :: string
  password :: string
  proxy_pool :: proxy_pool

text \<open>The dataclass constructor followed by \<open>__post_init__\<close>.\<close>

definition OxyLabsProxy :: "string \<Rightarrow> string \<Rightarrow> oxylabs_proxy" where
  "OxyLabsProxy u pw = \<lparr>username = u, password = pw, proxy_pool = new_pool\<rparr>"

text \<open>
  \<open>_get_full_username\<close>: a location object is always truthy, so only \<open>None\<close> makes the
  method draw a random location (with the draw \<open>r\<close>).
\<close>

definition get_full_username ::
  "oxylabs_proxy \<Rightarrow> nat \<Rightarrow> proxy_location option \<Rightarrow> py_error + (string \<times> oxylabs_proxy)" where
  "get_full_username ox r location =
     (case location of
        Some l \<Rightarrow> Inr (''customer-'' @ username ox @ ''-residential-'' @ location_str l, ox)
      | None \<Rightarrow>
          (case get_random_location r (proxy_pool ox) of
             Inl e \<Rightarrow> Inl e
           | Inr (l, p') \<Rightarrow>
               Inr (''customer-'' @ username ox @ ''-residential-'' @ location_str l,
                    ox\<lparr>proxy_pool := p'\<rparr>)))"

definition get_url ::
  "oxylabs_proxy \<Rightarrow> nat \<Rightarrow> proxy_location option \<Rightarrow> py_error + (string \<times> oxylabs_proxy)" where
  "get_url ox r location =
     (case get_full_username ox r location of
        Inl e \<Rightarrow> Inl e
      | Inr (u, ox') \<Rightarrow> Inr (''http://'' @ u @ '':'' @ password ox' @ ''@pr.oxylabs.io:7777'', ox'))"

text \<open>The proxy configuration is a \<open>Dict[str, str]\<close>, kept as an association list.\<close>

type_synonym proxy_conf = "(string \<times> string) list"

definition proxy_conf_for ::
  "oxylabs_proxy \<Rightarrow> nat \<Rightarrow> proxy_location \<Rightarrow> py_error + (proxy_conf \<times> oxylabs_proxy)" where
  "proxy_conf_for ox r location =
     (case get_url ox r (Some location) of
        Inl e \<Rightarrow> Inl e
      | Inr (url, ox1) \<Rightarrow>
          (case get_full_username ox1 r (Some location) of
             Inl e \<Rightarrow> Inl e
           | Inr (u, ox2) \<Rightarrow>
               Inr ([(''url'', url), (''username'', u), (''password'', password ox2),
                     (''location'', location_str location), (''type'', ''residential'')], ox2)))"

definition get_next_proxy :: "oxylabs_proxy \<Rightarrow> nat \<Rightarrow> py_error + (proxy_conf \<times> oxylabs_proxy)" where
  "get_next_proxy ox r =
     (case get_next_location (proxy_pool ox) of
        Inl e \<Rightarrow> Inl e
      | Inr (location, p') \<Rightarrow> proxy_conf_for (ox\<lparr>proxy_pool := p'\<rparr>) r location)"

definition get_random_proxy :: "oxylabs_proxy \<Rightarrow> nat \<Rightarrow> py_error + (proxy_conf \<times> oxylabs_proxy)" where
  "get_random_proxy ox r =
     (case get_random_location r (proxy_pool ox) of
        Inl e \<Rightarrow> Inl e
      | Inr (location, p') \<Rightarrow> proxy_conf_for (ox\<lparr>proxy_pool := p'\<rparr>) r location)"


section \<open>browser\_config.py\<close>

record bf_location =
  bf_state :: string
  bf_country :: string

text \<open>The dataclass \<open>ProxyLocation(state, country='US')\<close> of this module.\<close>

definition BFProxyLocation :: "string \<Rightarrow> bf_location" where
  "BFProxyLocation st = \<lparr>bf_state = st, bf_country = ''US''\<rparr>"

definition RESOLUTIONS :: "(int \<times> int) list" where
  "RESOLUTIONS = [(1920, 1080), (1366, 768), (1536, 864), (1440, 900), (1280, 720), (1600, 900)]"

definition CHROME_VERSIONS :: "string list" where
  "CHROME_VERSIONS = [''120.0.0.0'', ''119.0.0.0'', ''118.0.0.0'',
                      ''117.0.0.0'', ''116.0.0.0'', ''115.0.0.0'']"

record os_config =
  os :: string
  versions :: "string list"
  platform :: string

definition OS_CONFIGS :: "os_config list" where
  "OS_CONFIGS =
     [\<lparr>os = ''Windows'', versions = [''10.0'', ''11.0''], platform = ''Win64; x64''\<rparr>,
      \<lparr>os = ''Macintosh'', versions = [''10_15_7'', ''11_0_0'', ''12_0_0'', ''13_0_0''],
       platform = ''Intel Mac OS X''\<rparr>]"

definition TIMEZONE_MAP :: "(string \<times> string) list" where
  "TIMEZONE_MAP =
     [(''ny'', ''America/New_York''), (''nj'', ''America/New_York''),
      (''ca'', ''America/Los_Angeles''), (''wa'', ''America/Los_Angeles''),
      (''tx'', ''America/Chicago''), (''fl'', ''America/New_York''),
      (''il'', ''America/Chicago''), (''az'', ''America/Phoenix''),
      (''ga'', ''America/New_York'')]"

definition LOCALE_MAP :: "(string \<times> string) list" where
  "LOCALE_MAP =
     [(''ca'', ''en-CA''), (''fl'', ''en-US''), (''tx'', ''en-US''), (''ny'', ''en-US''),
      (''nj'', ''en-US''), (''wa'', ''en-US''), (''il'', ''en-US''), (''az'', ''en-US''),
      (''ga'', ''en-US'')]"

record viewport =
  width :: int
  height :: int

definition get_geographic_viewport :: "bf_location \<Rightarrow> nat \<Rightarrow> py_error + viewport" where
  "get_geographic_viewport location r =
     (if lower (bf_state location) \<in> {''ny'', ''nj'', ''fl'', ''ga''}
      then choice [\<lparr>width = 1366, height = 768\<rparr>, \<lparr>width = 1440, height = 900\<rparr>,
                   \<lparr>width = 1280, height = 720\<rparr>] r
      else if lower (bf_state location) \<in> {''ca'', ''wa''}
      then choice [\<lparr>width = 1920, height = 1080\<rparr>, \<lparr>width = 1536, height = 864\<rparr>,
                   \<lparr>width = 1600, height = 900\<rparr>] r
      else choice (map (\<lambda>size. \<lparr>width = fst size, height = snd size\<rparr>) RESOLUTIONS) r)"

text \<open>
  The three fixed JavaScript literals of \<open>evaluateOnNewDocument\<close>, by what they override;
  their text plays no part in any computation of the package.
\<close>

datatype override_script = NavigatorOverride | WebGLOverride | CanvasOverride

record fingerprint =
  user_agent :: string
  fp_viewport :: viewport
  fp_headers :: "(string \<times> string) list"
  timezone_id :: string
  evaluateOnNewDocument :: "override_script list"

text \<open>The random draws of one call of \<open>generate\<close>, in the order the code makes them.\<close>

record fp_random =
  rnd_os :: nat
  rnd_os_version :: nat
  rnd_chrome :: nat
  rnd_viewport :: nat
  rnd_shuffle :: "nat \<Rightarrow> nat"

text \<open>
  The quality weight \<open>f"{1.0-i*0.1:.1f}"\<close> of the language at position \<open>i\<close>; the list has
  four languages, and for \<open>i \<le> 10\<close> the one-decimal rendering is that of \<open>(10 - i) / 10\<close>.
\<close>

definition q_weight :: "nat \<Rightarrow> string" where
  "q_weight i = nat_str ((10 - i) div 10) @ ''.'' @ nat_str ((10 - i) mod 10)"

text \<open>
  \<open>BrowserFingerprint.generate\<close>. \<open>utc_offset\<close> is the clock: it gives the \<open>%z\<close> offset of
  a named timezone at the time of the call. The value \<open>locale\<close> is looked up, as in the
  source, and then not used.
\<close>

definition generate ::
  "(string \<Rightarrow> string) \<Rightarrow> fp_random \<Rightarrow> bf_location \<Rightarrow> py_error + fingerprint" where
  "generate utc_offset rnd proxy_location =
     (let timezone = dict_get_default TIMEZONE_MAP (lower (bf_state proxy_location)) ''America/Chicago'';
          locale = dict_get_default LOCALE_MAP (lower (bf_state proxy_location)) ''en-US'';
          timezone_offset = utc_offset timezone
      in case choice OS_CONFIGS (rnd_os rnd) of
           Inl e \<Rightarrow> Inl e
         | Inr os_cfg \<Rightarrow>
        (case choice (versions os_cfg) (rnd_os_version rnd) of
           Inl e \<Rightarrow> Inl e
         | Inr os_version \<Rightarrow>
        (case choice CHROME_VERSIONS (rnd_chrome rnd) of
           Inl e \<Rightarrow> Inl e
         | Inr chrome_version \<Rightarrow>
        (let ua = (if os os_cfg = ''Windows''
                   then ''Mozilla/5.0 ('' @ os os_cfg @ '' NT '' @ os_version @ ''; ''
                        @ platform os_cfg @ '') ''
                   else ''Mozilla/5.0 ('' @ os os_cfg @ ''; '' @ platform os_cfg @ '' ''
                        @ os_version @ '') '')
                  @ ''AppleWebKit/537.36 (KHTML, like Gecko) Chrome/'' @ chrome_version
                  @ '' Safari/537.36''
         in case get_geographic_viewport proxy_location (rnd_viewport rnd) of
              Inl e \<Rightarrow> Inl e
            | Inr vp \<Rightarrow>
           (let languages = shuffle [''en-US'', ''en-GB'', ''en-CA'', ''en''] (rnd_shuffle rnd);
                accept_language =
                  join '','' (map (\<lambda>(i, lang). lang @ '';q='' @ q_weight i)
                                 (zip [0..<length languages] languages))
            in Inr \<lparr>user_agent = ua,
                    fp_viewport = vp,
                    fp_headers = [(''accept-language'', accept_language),
                                  (''sec-ch-ua-timezone'', timezone),
                                  (''cookie'', ''timezone_offset='' @ timezone_offset @ '';'')],
                    timezone_id = timezone,
                    evaluateOnNewDocument =
                      [NavigatorOverride, WebGLOverride, CanvasOverride]\<rparr>)))))"

section \<open>tradingview\_proxy.py\<close>

subsection \<open>Parsed JSON\<close>

text \<open>
  What \<open>resp.json()\<close> returns: \<open>None\<close>, a bool, an int, a str, a list or a dict (an
  association list in insertion order). Floating-point numbers are outside the model.
\<close>

datatype json =
    JNull
  | JBool bool
  | JInt int
  | JStr string
  | JList "json list"
  | JDict "(string \<times> json) list"

text \<open>\<open>item.get(k)\<close>: \<open>None\<close> for a missing key.\<close>

definition dict_get :: "(string \<times> json) list \<Rightarrow> string \<Rightarrow> json" where
  "dict_get d k = dict_get_default d k JNull"

text \<open>Truth value of a Python object, and \<open>a or b\<close>.\<close>

fun py_truthy :: "json \<Rightarrow> bool" where
  "py_truthy JNull = False"
| "py_truthy (JBool b) = b"
| "py_truthy (JInt i) = (i \<noteq> 0)"
| "py_truthy (JStr s) = (s \<noteq> [])"
| "py_truthy (JList xs) = (xs \<noteq> [])"
| "py_truthy (JDict kvs) = (kvs \<noteq> [])"

definition py_or :: "json \<Rightarrow> json \<Rightarrow> json" where
  "py_or a b = (if py_truthy a then a else b)"

text \<open>
  \<open>repr\<close> of a str: single quotes, unless the string has a single quote and no double
  quote; backslash, the quote and control characters are escaped.
\<close>

definition repr_char :: "char \<Rightarrow> char \<Rightarrow> string" where
  "repr_char q c = (let n = (of_char c :: nat) in
     if c = CHR 0x5C then [CHR 0x5C, CHR 0x5C]
     else if c = q then [CHR 0x5C, q]
     else if n = 9 then [CHR 0x5C, CHR ''t'']
     else if n = 10 then [CHR 0x5C, CHR ''n'']
     else if n = 13 then [CHR 0x5C, CHR ''r'']
     else if n < 32 \<or> n = 127
       then [CHR 0x5C, CHR ''x'', ''0123456789abcdef'' ! (n div 16), ''0123456789abcdef'' ! (n mod 16)]
     else [c])"

definition str_repr :: "string \<Rightarrow> string" where
  "str_repr s = (let q = (if CHR 0x27 \<in> set s \<and> CHR 0x22 \<notin> set s then CHR 0x22 else CHR 0x27)
                 in [q] @ concat (map (repr_char q) s) @ [q])"

fun py_repr :: "json \<Rightarrow> string" where
  "py_repr JNull = ''None''"
| "py_repr (JBool b) = (if b then ''True'' else ''False'')"
| "py_repr (JInt i) = int_str i"
| "py_repr (JStr s) = str_repr s"
| "py_repr (JList xs) = ''['' @ join '', '' (map py_repr xs) @ '']''"
| "py_repr (JDict kvs) =
     ''{'' @ join '', '' (map (\<lambda>kv. str_repr (fst kv) @ '': '' @ py_repr (snd kv)) kvs) @ ''}''"

text \<open>\<open>str(x)\<close>: a str is itself, anything else is its \<open>repr\<close>.\<close>

definition py_str :: "json \<Rightarrow> string" where
  "py_str x = (case x of JStr s \<Rightarrow> s | _ \<Rightarrow> py_repr x)"

text \<open>
  Iterating an object: the elements of a list, the characters of a str, the keys of a
  dict; \<open>None\<close>, a bool or an int raises TypeError.
\<close>

fun py_iter :: "json \<Rightarrow> py_error + json list" where
  "py_iter (JList xs) = Inr xs"
| "py_iter (JStr s) = Inr (map (\<lambda>c. JStr [c]) s)"
| "py_iter (JDict kvs) = Inr (map (\<lambda>kv. JStr (fst kv)) kvs)"
| "py_iter JNull = Inl (TypeError (sq ''NoneType'' @ '' object is not iterable''))"
| "py_iter (JBool b) = Inl (TypeError (sq ''bool'' @ '' object is not iterable''))"
| "py_iter (JInt i) = Inl (TypeError (sq ''int'' @ '' object is not iterable''))"

text \<open>
  Membership in a Python set goes through hash and equality: \<open>True == 1\<close> and
  \<open>False == 0\<close>; a list or a dict is unhashable.
\<close>

datatype py_key = KNone | KInt int | KStr string

fun py_hash_key :: "json \<Rightarrow> py_error + py_key" where
  "py_hash_key JNull = Inr KNone"
| "py_hash_key (JBool b) = Inr (KInt (if b then 1 else 0))"
| "py_hash_key (JInt i) = Inr (KInt i)"
| "py_hash_key (JStr s) = Inr (KStr s)"
| "py_hash_key (JList xs) = Inl (TypeError (''unhashable type: '' @ sq ''list''))"
| "py_hash_key (JDict kvs) = Inl (TypeError (''unhashable type: '' @ sq ''dict''))"

subsection \<open>Helpers of the module\<close>

text \<open>\<open>_parse_state_from_location\<close>\<close>

definition parse_state_from_location :: "string \<Rightarrow> string" where
  "parse_state_from_location location =
     (let parts = split_on CHR ''-'' location
      in if length parts \<ge> 2 then parts ! 1 else ''ca'')"

text \<open>
  \<open>re.search(r"Chrome/(\d+)", ua)\<close>: the leftmost place where \<open>Chrome/\<close> is followed by
  at least one digit; the group is the longest run of digits there.
\<close>

definition is_digit :: "char \<Rightarrow> bool" where
  "is_digit c = (let n = (of_char c :: nat) in 48 \<le> n \<and> n \<le> 57)"

fun search_chrome_major :: "string \<Rightarrow> string option" where
  "search_chrome_major [] = None"
| "search_chrome_major (c # cs) =
     (if take 7 (c # cs) = ''Chrome/'' \<and> takeWhile is_digit (drop 7 (c # cs)) \<noteq> []
      then Some (takeWhile is_digit (drop 7 (c # cs)))
      else search_chrome_major cs)"

text \<open>\<open>_infer_client_hints_from_ua\<close>: platform, sec-ch-ua, sec-ch-ua-mobile.\<close>

definition infer_client_hints_from_ua :: "string \<Rightarrow> string \<times> string \<times> string" where
  "infer_client_hints_from_ua ua =
     (let platform_hint = (if contains_str ''Windows'' ua then dq ''Windows''
                           else if contains_str ''Macintosh'' ua then dq ''macOS''
                           else dq ''Linux'');
          major = (case search_chrome_major ua of Some m \<Rightarrow> m | None \<Rightarrow> ''120'');
          sec_ch_ua = dq ''Chromium'' @ '';v='' @ dq major @ '', '' @ dq ''Google Chrome''
                      @ '';v='' @ dq major @ '', '' @ dq ''Not:A-Brand'' @ '';v='' @ dq ''99'';
          mobile = ''?0''
      in (platform_hint, sec_ch_ua, mobile))"

definition remove_keys :: "string set" where
  "remove_keys = {''provider_id'', ''source_logoid'', ''source2'', ''source_id''}"

text \<open>
  The sub-type markers of an item, as both \<open>keep\<close> and \<open>_strip_tv_fields\<close> compute them:
  \<open>ts = item.get("typespecs") or item.get("typeSpecs") or []\<close>, then the lower-cased
  str elements of \<open>ts\<close>.
\<close>

definition ts_lower :: "(string \<times> json) list \<Rightarrow> py_error + string list" where
  "ts_lower item =
     (let ts = py_or (py_or (dict_get item ''typespecs'') (dict_get item ''typeSpecs'')) (JList [])
      in case py_iter ts of
           Inl e \<Rightarrow> Inl e
         | Inr elems \<Rightarrow>
             Inr (map lower (concat (map (\<lambda>s. case s of JStr x \<Rightarrow> [x] | _ \<Rightarrow> []) elems))))"

text \<open>\<open>_strip_tv_fields\<close>\<close>

definition strip_tv_fields :: "json \<Rightarrow> py_error + json" where
  "strip_tv_fields x =
     (case x of
        JDict item \<Rightarrow>
          (let cleaned = filter (\<lambda>kv. fst kv \<notin> remove_keys) item
           in if dict_get cleaned ''type'' = JStr ''spot''
              then (case ts_lower cleaned of
                      Inl e \<Rightarrow> Inl e
                    | Inr tsl \<Rightarrow>
                        Inr (JDict (if ''crypto'' \<in> set tsl
                                    then AList.update ''type'' (JStr ''crypto'') cleaned
                                    else cleaned)))
              else Inr (JDict cleaned))
      | _ \<Rightarrow> Inr x)"

subsection \<open>The filter, the deduplication and the clean-up of a successful response\<close>

text \<open>The local function \<open>keep\<close>.\<close>

definition keep :: "(string \<times> json) list \<Rightarrow> py_error + bool" where
  "keep item =
     (let t = lower (py_str (dict_get_default item ''type'' (JStr [])))
      in case ts_lower item of
           Inl e \<Rightarrow> Inl e
         | Inr tsl \<Rightarrow>
             (let has_crypto = (''crypto'' \<in> set tsl)
              in Inr (if t \<in> {''index'', ''forex'', ''stock''} then \<not> has_crypto
                      else if t = ''spot'' then has_crypto
                      else False)))"

text \<open>\<open>filtered = [x for x in data if isinstance(x, dict) and keep(x)]\<close>\<close>

fun filter_items :: "json list \<Rightarrow> py_error + json list" where
  "filter_items [] = Inr []"
| "filter_items (x # xs) =
     (case x of
        JDict item \<Rightarrow>
          (case keep item of
             Inl e \<Rightarrow> Inl e
           | Inr b \<Rightarrow>
               (case filter_items xs of
                  Inl e \<Rightarrow> Inl e
                | Inr ys \<Rightarrow> Inr (if b then x # ys else ys)))
      | _ \<Rightarrow> filter_items xs)"

text \<open>
  The deduplication loop, from the set \<open>seen\<close> on: an item is appended when its symbol is
  truthy and not yet seen. \<open>item.get\<close> on a value that is not a dict raises.
\<close>

fun dedupe :: "py_key set \<Rightarrow> json list \<Rightarrow> py_error + json list" where
  "dedupe seen [] = Inr []"
| "dedupe seen (x # xs) =
     (case x of
        JDict item \<Rightarrow>
          (let sym = dict_get item ''symbol''
           in if py_truthy sym
              then (case py_hash_key sym of
                      Inl e \<Rightarrow> Inl e
                    | Inr k \<Rightarrow>
                        if k \<notin> seen
                        then (case dedupe (insert k seen) xs of
                                Inl e \<Rightarrow> Inl e
                              | Inr ys \<Rightarrow> Inr (x # ys))
                        else dedupe seen xs)
              else dedupe seen xs)
      | _ \<Rightarrow> Inl (AttributeError ''object has no attribute get''))"

text \<open>\<open>deduped_clean = [_strip_tv_fields(it) for it in deduped]\<close>\<close>

fun strip_all :: "json list \<Rightarrow> py_error + json list" where
  "strip_all [] = Inr []"
| "strip_all (x # xs) =
     (case strip_tv_fields x of
        Inl e \<Rightarrow> Inl e
      | Inr y \<Rightarrow> (case strip_all xs of Inl e \<Rightarrow> Inl e | Inr ys \<Rightarrow> Inr (y # ys)))"

definition clean_items :: "json list \<Rightarrow> py_error + json list" where
  "clean_items items =
     (case filter_items items of
        Inl e \<Rightarrow> Inl e
      | Inr filtered \<Rightarrow>
          (case dedupe {} filtered of
             Inl e \<Rightarrow> Inl e
           | Inr deduped \<Rightarrow> strip_all deduped))"

text \<open>
  The three branches on the shape of the parsed payload: a list, a dict with a list under
  \<open>symbols\<close> (the payload keeps its other entries, \<open>{**data, "symbols": deduped_clean}\<close>),
  anything else (\<open>None\<close> here: the caller returns the raw response).
\<close>

definition normalize_payload :: "json \<Rightarrow> py_error + json option" where
  "normalize_payload data =
     (case data of
        JList items \<Rightarrow>
          (case clean_items items of
             Inl e \<Rightarrow> Inl e
           | Inr deduped_clean \<Rightarrow> Inr (Some (JList deduped_clean)))
      | JDict kvs \<Rightarrow>
          (case map_of kvs ''symbols'' of
             Some (JList items) \<Rightarrow>
               (case clean_items items of
                  Inl e \<Rightarrow> Inl e
                | Inr deduped_clean \<Rightarrow>
                    Inr (Some (JDict (AList.update ''symbols'' (JList deduped_clean) kvs))))
           | _ \<Rightarrow> Inr None)
      | _ \<Rightarrow> Inr None)"

subsection \<open>The response and the result\<close>

text \<open>
  An upstream response as httpx presents it: \<open>json_body\<close> is what \<open>resp.json()\<close> returns,
  \<open>None\<close> when it raises; \<open>content_type_header\<close> is \<open>None\<close> when the header is absent.
\<close>

record response =
  status_code :: int
  content :: string
  resp_text :: string
  content_type_header :: "string option"
  json_body :: "json option"

text \<open>The bytes returned: the raw content, or \<open>json.dumps(payload).encode("utf-8")\<close>.\<close>

datatype body = RawContent string | JsonDumps json

text \<open>The body of \<open>if 200 <= resp.status_code < 300\<close>, with its \<open>try\<close>/\<open>except Exception\<close>.\<close>

definition handle_success :: "response \<Rightarrow> body \<times> string" where
  "handle_success resp =
     (let content_type = (case content_type_header resp of
                            None \<Rightarrow> ''application/json'' | Some c \<Rightarrow> c)
      in case json_body resp of
           None \<Rightarrow> (RawContent (content resp), content_type)
         | Some data \<Rightarrow>
             (case normalize_payload data of
                Inl e \<Rightarrow> (RawContent (content resp), content_type)
              | Inr (Some payload) \<Rightarrow> (JsonDumps payload, ''application/json'')
              | Inr None \<Rightarrow> (RawContent (content resp), content_type)))"

subsection \<open>tradingview\_symbol\_search\<close>

text \<open>
  What one attempt meets from outside: the draws of the location, of the fingerprint and
  of the jitter (\<open>rnd_jitter\<close> is the value of \<open>random()\<close> inside \<open>random.uniform\<close>), the
  clock, and what the GET through the proxy does: a response, or an exception with its
  message.
\<close>

datatype http_outcome = Responded response | Raised string

record attempt_env =
  rnd_location :: nat
  rnd_fp :: fp_random
  utc_offset :: "string \<Rightarrow> string"
  http :: http_outcome
  rnd_jitter :: rat

text \<open>
  What the function does to the outside, in order: a GET (proxy URL, query parameters,
  headers) and \<open>asyncio.sleep(jitter)\<close> (seconds).
\<close>

datatype event =
    Request string "(string \<times> string) list" "(string \<times> string) list"
  | Sleep rat

fun is_request :: "event \<Rightarrow> bool" where
  "is_request (Request u ps hs) = True"
| "is_request (Sleep d) = False"

fun is_sleep :: "event \<Rightarrow> bool" where
  "is_sleep (Request u ps hs) = False"
| "is_sleep (Sleep d) = True"

datatype tv_error = TradingViewProxyError string

text \<open>\<open>params.setdefault(k, v)\<close>: a new key goes to the end, a present key keeps its value.\<close>

definition setdefault :: "(string \<times> string) list \<Rightarrow> string \<Rightarrow> string \<Rightarrow> (string \<times> string) list" where
  "setdefault d k v = (case map_of d k of None \<Rightarrow> d @ [(k, v)] | Some w \<Rightarrow> d)"

text \<open>The header set of one attempt, from the fingerprint.\<close>

definition build_headers :: "fingerprint \<Rightarrow> (string \<times> string) list" where
  "build_headers fp =
     (let ua = user_agent fp;
          hints = infer_client_hints_from_ua ua;
          platform_hint = fst hints;
          sec_ch_ua = fst (snd hints);
          sec_ch_mobile = snd (snd hints);
          accept_language = dict_get_default (fp_headers fp) ''accept-language'' ''en-US,en;q=0.9'';
          headers =
            [(''User-Agent'', ua),
             (''Accept'', ''application/json, text/plain, */*''),
             (''Accept-Language'', accept_language),
             (''Accept-Encoding'', ''gzip, deflate, br''),
             (''Origin'', ''https://www.tradingview.com''),
             (''Referer'', ''https://www.tradingview.com/''),
             (''Connection'', ''keep-alive''),
             (''Pragma'', ''no-cache''),
             (''Cache-Control'', ''no-cache''),
             (''sec-ch-ua'', sec_ch_ua),
             (''sec-ch-ua-mobile'', sec_ch_mobile),
             (''sec-ch-ua-platform'', platform_hint),
             (''Sec-Fetch-Site'', ''same-site''),
             (''Sec-Fetch-Mode'', ''cors''),
             (''Sec-Fetch-Dest'', ''empty'')];
          headers = (case map_of (fp_headers fp) ''cookie'' of
                       Some c \<Rightarrow> headers @ [(''Cookie'', c)] | None \<Rightarrow> headers);
          headers = (case map_of (fp_headers fp) ''sec-ch-ua-timezone'' of
                       Some z \<Rightarrow> headers @ [(''sec-ch-ua-timezone'', z)] | None \<Rightarrow> headers)
      in headers)"

text \<open>
  The outcome of one pass through the loop body: the function returns, or the pass ends
  in \<open>continue\<close> with a new \<open>last_error\<close>.
\<close>

datatype attempt_result = Returned "body \<times> string" | Continue string

text \<open>
  Both failure paths (the non-2xx path and the \<open>except Exception\<close> path) set
  \<open>last_error\<close>, draw the jitter, sleep and \<open>continue\<close>. An exception of the network
  step is placed at the GET, which is recorded before it; the proxy URL built by
  \<open>get_url\<close> is taken to be one the transport accepts.
\<close>

definition fail_and_sleep :: "attempt_env \<Rightarrow> string \<Rightarrow> attempt_result \<times> event list" where
  "fail_and_sleep e last_error = (Continue last_error, [Sleep (uniform (1/4) (4/5) (rnd_jitter e))])"

definition attempt ::
  "attempt_env \<Rightarrow> (string \<times> string) list \<Rightarrow> oxylabs_proxy
     \<Rightarrow> attempt_result \<times> oxylabs_proxy \<times> event list" where
  "attempt e params proxy =
     (case get_random_proxy proxy (rnd_location e) of
        Inl err \<Rightarrow>
          (let (r, evs) = fail_and_sleep e (error_message err) in (r, proxy, evs))
      | Inr (conf, proxy') \<Rightarrow>
          (let location = dict_get_default conf ''location'' [];
               state = parse_state_from_location location
           in case generate (utc_offset e) (rnd_fp e) (BFProxyLocation state) of
                Inl err \<Rightarrow>
                  (let (r, evs) = fail_and_sleep e (error_message err) in (r, proxy', evs))
              | Inr fp \<Rightarrow>
                  (case map_of conf ''url'' of
                     None \<Rightarrow>
                       (let (r, evs) = fail_and_sleep e (sq ''url'') in (r, proxy', evs))
                   | Some url \<Rightarrow>
                       (let req = Request url params (build_headers fp)
                        in case http e of
                             Raised msg \<Rightarrow>
                               (let (r, evs) = fail_and_sleep e msg in (r, proxy', req # evs))
                           | Responded resp \<Rightarrow>
                               if 200 \<le> status_code resp \<and> status_code resp < 300
                               then (Returned (handle_success resp), proxy', [req])
                               else (let (r, evs) = fail_and_sleep e
                                           (int_str (status_code resp) @ '' ''
                                            @ take 200 (resp_text resp))
                                     in (r, proxy', req # evs))))))"

text \<open>
  \<open>for _ in range(attempts)\<close>, then the \<open>raise\<close>. \<open>k\<close> counts the passes made, \<open>env k\<close>
  is what pass \<open>k\<close> meets; \<open>last_error\<close> is \<open>None\<close> until a pass fails, and \<open>str(None)\<close>
  goes into the message then.
\<close>

fun attempts_loop ::
  "nat \<Rightarrow> nat \<Rightarrow> (nat \<Rightarrow> attempt_env) \<Rightarrow> (string \<times> string) list \<Rightarrow> oxylabs_proxy
     \<Rightarrow> string option \<Rightarrow> (tv_error + body \<times> string) \<times> oxylabs_proxy \<times> event list" where
  "attempts_loop 0 k env params proxy last_error =
     (Inl (TradingViewProxyError
             (''TradingView search failed after retries: ''
              @ (case last_error of None \<Rightarrow> ''None'' | Some m \<Rightarrow> m))),
      proxy, [])"
| "attempts_loop (Suc n) k env params proxy last_error =
     (case attempt (env k) params proxy of
        (Returned result, proxy', evs) \<Rightarrow> (Inr result, proxy', evs)
      | (Continue err, proxy', evs) \<Rightarrow>
          (case attempts_loop n (Suc k) env params proxy' (Some err) of
             (res, proxy'', evs') \<Rightarrow> (res, proxy'', evs @ evs')))"

text \<open>
  The public operation. It returns the result or the raised error, the proxy object as
  the call leaves it, and the events in order.
\<close>

definition tradingview_symbol_search ::
  "(nat \<Rightarrow> attempt_env) \<Rightarrow> oxylabs_proxy \<Rightarrow> (string \<times> string) list \<Rightarrow> nat
     \<Rightarrow> (tv_error + body \<times> string) \<times> oxylabs_proxy \<times> event list" where
  "tradingview_symbol_search env proxy params attempts =
     (let params = setdefault (setdefault params ''lang'' ''en'') ''limit'' ''50''
      in attempts_loop attempts 0 env params proxy None)"

subsection \<open>Notions used to state the properties\<close>

text \<open>
  The two classes of what a pass meets, as the loop body tells them apart, and the
  \<open>last_error\<close> text a failing pass records: an exception or a status outside
  \<open>[200, 300)\<close> ends the pass in \<open>continue\<close>.
\<close>

definition retryable :: "http_outcome \<Rightarrow> bool" where
  "retryable h =
     (case h of Raised msg \<Rightarrow> True
              | Responded resp \<Rightarrow> \<not> (200 \<le> status_code resp \<and> status_code resp < 300))"

definition diagnostic :: "http_outcome \<Rightarrow> string" where
  "diagnostic h =
     (case h of Raised msg \<Rightarrow> msg
              | Responded resp \<Rightarrow> int_str (status_code resp) @ '' '' @ take 200 (resp_text resp))"

text \<open>The symbol of an item (\<open>item.get("symbol")\<close>), and whether its markers hold \<open>crypto\<close>.\<close>

definition symbol_of :: "json \<Rightarrow> json" where
  "symbol_of x = (case x of JDict item \<Rightarrow> dict_get item ''symbol'' | _ \<Rightarrow> JNull)"

definition has_crypto :: "(string \<times> json) list \<Rightarrow> bool" where
  "has_crypto item = (case ts_lower item of Inl e \<Rightarrow> False | Inr tsl \<Rightarrow> ''crypto'' \<in> set tsl)"

section \<open>Properties of the proxy selector\<close>


lemma length_LOCATIONS: "length LOCATIONS = 20"
  by (simp add: LOCATIONS_def)

lemma get_next_location_ok:
  assumes "current_index p < length LOCATIONS"
  shows "get_next_location p =
     Inr (LOCATIONS ! current_index p, p\<lparr>current_index := (current_index p + 1) mod length LOCATIONS\<rparr>)"
  using assms by (simp add: get_next_location_def)

lemma next_locations_from:
  "current_index p < length LOCATIONS \<Longrightarrow>
   next_locations n p =
     Inr (map (\<lambda>i. LOCATIONS ! ((current_index p + i) mod length LOCATIONS)) [0..<n],
          p\<lparr>current_index := (current_index p + n) mod length LOCATIONS\<rparr>)"
proof (induction n arbitrary: p)
  case 0
  then show ?case by simp
next
  case (Suc n)
  let ?N = "length LOCATIONS"
  let ?p' = "p\<lparr>current_index := (current_index p + 1) mod ?N\<rparr>"
  have N: "0 < ?N" by (simp add: length_LOCATIONS)
  have lt: "current_index ?p' < ?N" using N by simp
  have step: "get_next_location p = Inr (LOCATIONS ! current_index p, ?p')"
    using Suc.prems by (rule get_next_location_ok)
  have idx: "\<And>i. (Suc (current_index p) mod ?N + i) mod ?N = Suc (current_index p + i) mod ?N"
    by (simp add: mod_simps)
  have ih: "next_locations n ?p' =
      Inr (map (\<lambda>i. LOCATIONS ! ((current_index p + Suc i) mod ?N)) [0..<n],
           p\<lparr>current_index := (current_index p + Suc n) mod ?N\<rparr>)"
    using Suc.IH [OF lt] by (simp add: idx)
  have m: "map (\<lambda>i. LOCATIONS ! ((current_index p + i) mod ?N)) [0..<Suc n] =
           LOCATIONS ! current_index p # map (\<lambda>i. LOCATIONS ! ((current_index p + Suc i) mod ?N)) [0..<n]"
    using Suc.prems by (simp only: upt_conv_Cons [of 0 "Suc n"] list.map map_Suc_upt [symmetric] map_map o_def) simp
  show ?case
    using step ih m by simp
qed

text \<open>
  Claim C3. On a freshly constructed pool, the round-robin calls return, in call order,
  the catalog entries at the indices \<open>i mod N\<close> for \<open>i = 0, 1, ...\<close>, where \<open>N\<close> is the
  catalog size, and no call fails; after \<open>n\<close> calls the cursor is \<open>n mod N\<close>.
\<close>

theorem round_robin_ith:
  "next_locations n new_pool =
     Inr (map (\<lambda>i. LOCATIONS ! (i mod length LOCATIONS)) [0..<n],
          new_pool\<lparr>current_index := n mod length LOCATIONS\<rparr>)"
  using next_locations_from [of new_pool n] by (simp add: new_pool_def length_LOCATIONS)



lemma distinct_LOCATIONS: "distinct (map location_str LOCATIONS)"
  by (simp add: LOCATIONS_def ProxyLocation_def location_str_def lower_def lower_char_def)

lemma choice_mem: "xs \<noteq> [] \<Longrightarrow> \<exists>x. choice xs r = Inr x \<and> x \<in> set xs"
  by (simp add: choice_def)

lemma get_random_location_unused:
  assumes "\<exists>l\<in>set LOCATIONS. location_str l \<notin> used_locations p"
  shows "\<exists>loc. get_random_location r p =
            Inr (loc, p\<lparr>used_locations := insert (location_str loc) (used_locations p)\<rparr>)
          \<and> loc \<in> set LOCATIONS \<and> location_str loc \<notin> used_locations p"
proof -
  let ?av = "filter (\<lambda>loc. location_str loc \<notin> used_locations p) LOCATIONS"
  from assms have ne: "?av \<noteq> []" by (auto simp: filter_empty_conv)
  then obtain x where x: "choice ?av r = Inr x" "x \<in> set ?av"
    using choice_mem by blast
  from ne x(1) have "get_random_location r p =
      Inr (x, p\<lparr>used_locations := insert (location_str x) (used_locations p)\<rparr>)"
    by (simp add: get_random_location_def Let_def)
  with x(2) show ?thesis by auto
qed

lemma get_random_location_reset:
  assumes "\<forall>l\<in>set LOCATIONS. location_str l \<in> used_locations p"
  shows "get_random_location r p =
           Inr (LOCATIONS ! (r mod length LOCATIONS),
                p\<lparr>used_locations := {location_str (LOCATIONS ! (r mod length LOCATIONS))}\<rparr>)"
proof -
  from assms have e: "filter (\<lambda>loc. location_str loc \<notin> used_locations p) LOCATIONS = []"
    by (auto simp: filter_empty_conv)
  have ne: "LOCATIONS \<noteq> []" using length_LOCATIONS by auto
  show ?thesis
    using ne by (simp add: get_random_location_def Let_def e choice_def)
qed

lemma epoch_full:
  assumes "distinct (map location_str pre)" "set pre \<subseteq> set LOCATIONS"
    and "length pre = length LOCATIONS"
  shows "location_str ` set pre = location_str ` set LOCATIONS"
proof (rule card_subset_eq)
  show "finite (location_str ` set LOCATIONS)" by simp
  show "location_str ` set pre \<subseteq> location_str ` set LOCATIONS" using assms(2) by auto
  have "card (location_str ` set pre) = length pre"
    using assms(1) distinct_card [of "map location_str pre"] by simp
  moreover have "card (location_str ` set LOCATIONS) = length LOCATIONS"
    using distinct_LOCATIONS distinct_card [of "map location_str LOCATIONS"] by simp
  ultimately show "card (location_str ` set pre) = card (location_str ` set LOCATIONS)"
    using assms(3) by simp
qed

lemma epoch_not_full:
  assumes "distinct (map location_str pre)" "length pre < length LOCATIONS"
  shows "\<exists>l\<in>set LOCATIONS. location_str l \<notin> location_str ` set pre"
proof (rule ccontr)
  assume "\<not> ?thesis"
  then have "location_str ` set LOCATIONS \<subseteq> location_str ` set pre" by auto
  then have "card (location_str ` set LOCATIONS) \<le> card (location_str ` set pre)"
    by (simp add: card_mono)
  moreover have "card (location_str ` set pre) = length pre"
    using assms(1) distinct_card [of "map location_str pre"] by simp
  moreover have "card (location_str ` set LOCATIONS) = length LOCATIONS"
    using distinct_LOCATIONS distinct_card [of "map location_str LOCATIONS"] by simp
  ultimately show False using assms(2) by simp
qed

lemma random_locations_epochs:
  assumes "used_locations p = location_str ` set pre"
    and "distinct (map location_str pre)"
    and "set pre \<subseteq> set LOCATIONS"
    and "length pre \<le> length LOCATIONS"
  shows "\<exists>locs p'. random_locations rs p = Inr (locs, p') \<and> length locs = length rs
           \<and> set locs \<subseteq> set LOCATIONS
           \<and> (\<forall>i j. i < j \<and> j < length pre + length locs
                      \<and> i div length LOCATIONS = j div length LOCATIONS
                  \<longrightarrow> location_str ((pre @ locs) ! i) \<noteq> location_str ((pre @ locs) ! j))"
  using assms
proof (induction rs arbitrary: p pre)
  case Nil
  have "\<And>i j. i < j \<Longrightarrow> j < length pre \<Longrightarrow> location_str (pre ! i) \<noteq> location_str (pre ! j)"
    using Nil.prems(2) by (auto simp: distinct_conv_nth)
  then show ?case by simp
next
  case (Cons r rs)
  let ?N = "length LOCATIONS"
  show ?case
  proof (cases "length pre < ?N")
    case True
    from epoch_not_full [OF Cons.prems(2) True] Cons.prems(1)
    have "\<exists>l\<in>set LOCATIONS. location_str l \<notin> used_locations p" by simp
    from get_random_location_unused [OF this, of r]
    obtain loc where loc: "get_random_location r p =
          Inr (loc, p\<lparr>used_locations := insert (location_str loc) (used_locations p)\<rparr>)"
        "loc \<in> set LOCATIONS" "location_str loc \<notin> used_locations p"
      by blast
    let ?p' = "p\<lparr>used_locations := insert (location_str loc) (used_locations p)\<rparr>"
    let ?pre' = "pre @ [loc]"
    have a1: "used_locations ?p' = location_str ` set ?pre'" using Cons.prems(1) by simp
    have a2: "distinct (map location_str ?pre')" using Cons.prems(1,2) loc(3) by simp
    have a3: "set ?pre' \<subseteq> set LOCATIONS" using Cons.prems(3) loc(2) by simp
    have a4: "length ?pre' \<le> ?N" using True by simp
    from Cons.IH [OF a1 a2 a3 a4]
    obtain locs p'' where ih: "random_locations rs ?p' = Inr (locs, p'')" "length locs = length rs"
        "set locs \<subseteq> set LOCATIONS"
        "\<forall>i j. i < j \<and> j < length ?pre' + length locs \<and> i div ?N = j div ?N
            \<longrightarrow> location_str ((?pre' @ locs) ! i) \<noteq> location_str ((?pre' @ locs) ! j)"
      by blast
    have "random_locations (r # rs) p = Inr (loc # locs, p'')"
      using loc(1) ih(1) by simp
    moreover have "length (loc # locs) = length (r # rs)" using ih(2) by simp
    moreover have "set (loc # locs) \<subseteq> set LOCATIONS" using ih(3) loc(2) by simp
    moreover have "\<forall>i j. i < j \<and> j < length pre + length (loc # locs) \<and> i div ?N = j div ?N
            \<longrightarrow> location_str ((pre @ loc # locs) ! i) \<noteq> location_str ((pre @ loc # locs) ! j)"
      using ih(4) by simp
    ultimately show ?thesis by blast
  next
    case False
    with Cons.prems(4) have full: "length pre = ?N" by simp
    have "location_str ` set pre = location_str ` set LOCATIONS"
      using epoch_full [OF Cons.prems(2,3) full] .
    with Cons.prems(1) have "\<forall>l\<in>set LOCATIONS. location_str l \<in> used_locations p" by auto
    from get_random_location_reset [OF this, of r]
    have step: "get_random_location r p =
           Inr (LOCATIONS ! (r mod ?N), p\<lparr>used_locations := {location_str (LOCATIONS ! (r mod ?N))}\<rparr>)" .
    let ?loc = "LOCATIONS ! (r mod ?N)"
    let ?p' = "p\<lparr>used_locations := {location_str ?loc}\<rparr>"
    have N: "0 < ?N" by (simp add: length_LOCATIONS)
    have mem: "?loc \<in> set LOCATIONS" using N by simp
    have a1: "used_locations ?p' = location_str ` set [?loc]" by simp
    have a2: "distinct (map location_str [?loc])" by simp
    have a3: "set [?loc] \<subseteq> set LOCATIONS" using mem by simp
    have a4: "length [?loc] \<le> ?N" by (simp add: length_LOCATIONS)
    from Cons.IH [OF a1 a2 a3 a4]
    obtain locs p'' where ih: "random_locations rs ?p' = Inr (locs, p'')" "length locs = length rs"
        "set locs \<subseteq> set LOCATIONS"
        "\<forall>i j. i < j \<and> j < length [?loc] + length locs \<and> i div ?N = j div ?N
            \<longrightarrow> location_str (([?loc] @ locs) ! i) \<noteq> location_str (([?loc] @ locs) ! j)"
      by blast
    have r1: "random_locations (r # rs) p = Inr (?loc # locs, p'')"
      using step ih(1) by simp
    have r2: "length (?loc # locs) = length (r # rs)" using ih(2) by simp
    have r3: "set (?loc # locs) \<subseteq> set LOCATIONS" using ih(3) mem by simp
    have r4: "location_str ((pre @ ?loc # locs) ! i) \<noteq> location_str ((pre @ ?loc # locs) ! j)"
      if ij: "i < j" "j < length pre + length (?loc # locs)" "i div ?N = j div ?N" for i j
    proof (cases "j < ?N")
      case True
      then have "i < length pre" "j < length pre" "i \<noteq> j" using ij(1) full by simp_all
      then show ?thesis
        using Cons.prems(2) by (simp add: nth_append distinct_conv_nth)
    next
      case jN: False
      have iN: "\<not> i < ?N"
      proof
        assume "i < ?N"
        then have "i div ?N = 0" by simp
        moreover have "j div ?N \<noteq> 0" using jN N by (simp add: div_eq_0_iff)
        ultimately show False using ij(3) by simp
      qed
      have d: "(i - ?N) div ?N = (j - ?N) div ?N"
        using iN jN ij(3) N by (simp add: le_div_geq not_less)
      have l1: "i - ?N < j - ?N" using iN ij(1) by arith
      have l2: "j - ?N < length [?loc] + length locs" using jN ij(2) full by simp
      have "location_str (([?loc] @ locs) ! (i - ?N)) \<noteq> location_str (([?loc] @ locs) ! (j - ?N))"
        using ih(4) l1 l2 d by blast
      then show ?thesis using iN jN full by (simp add: nth_append)
    qed
    show ?thesis using r1 r2 r3 r4 by blast
  qed
qed

text \<open>
  Claim C4. From a fresh pool, any sequence of randomized selections succeeds, returns
  catalog entries, and never returns the same canonical string twice within one epoch of
  \<open>N\<close> calls (the calls \<open>kN, ..., kN + N - 1\<close>), so that a string comes back only after
  every other entry has been returned. In any state a single call succeeds: when every
  catalog string is in the recently-used set, the set is cleared, the choice is made in
  the whole catalog and the set then holds the chosen string alone; otherwise the chosen
  entry is an unused one and is added to the set.
\<close>

theorem random_unused_no_repeat:
  "(\<exists>locs p'. random_locations rs new_pool = Inr (locs, p') \<and> length locs = length rs
       \<and> set locs \<subseteq> set LOCATIONS
       \<and> (\<forall>i j. i < j \<and> j < length locs \<and> i div length LOCATIONS = j div length LOCATIONS
              \<longrightarrow> location_str (locs ! i) \<noteq> location_str (locs ! j)))
   \<and> (\<exists>loc p'. get_random_location r p = Inr (loc, p') \<and> loc \<in> set LOCATIONS
        \<and> (if \<forall>l\<in>set LOCATIONS. location_str l \<in> used_locations p
            then loc = LOCATIONS ! (r mod length LOCATIONS) \<and> used_locations p' = {location_str loc}
            else location_str loc \<notin> used_locations p
                 \<and> used_locations p' = insert (location_str loc) (used_locations p)))"
proof
  show "\<exists>locs p'. random_locations rs new_pool = Inr (locs, p') \<and> length locs = length rs
       \<and> set locs \<subseteq> set LOCATIONS
       \<and> (\<forall>i j. i < j \<and> j < length locs \<and> i div length LOCATIONS = j div length LOCATIONS
              \<longrightarrow> location_str (locs ! i) \<noteq> location_str (locs ! j))"
    using random_locations_epochs [of new_pool "[]" rs] by (simp add: new_pool_def)
next
  show "\<exists>loc p'. get_random_location r p = Inr (loc, p') \<and> loc \<in> set LOCATIONS
        \<and> (if \<forall>l\<in>set LOCATIONS. location_str l \<in> used_locations p
            then loc = LOCATIONS ! (r mod length LOCATIONS) \<and> used_locations p' = {location_str loc}
            else location_str loc \<notin> used_locations p
                 \<and> used_locations p' = insert (location_str loc) (used_locations p))"
  proof (cases "\<forall>l\<in>set LOCATIONS. location_str l \<in> used_locations p")
    case True
    have "LOCATIONS ! (r mod length LOCATIONS) \<in> set LOCATIONS"
      by (simp add: length_LOCATIONS)
    with True get_random_location_reset [OF True, of r] show ?thesis by simp
  next
    case False
    then have "\<exists>l\<in>set LOCATIONS. location_str l \<notin> used_locations p" by blast
    from get_random_location_unused [OF this, of r] False show ?thesis by auto
  qed
qed

theorem random_unused_no_repeat_witness:
  "(\<exists>locs p'. random_locations [0, 0] new_pool = Inr (locs, p') \<and> length locs = 2
       \<and> (0::nat) < 1 \<and> 1 < length locs
       \<and> (0::nat) div length LOCATIONS = 1 div length LOCATIONS
       \<and> location_str (locs ! 0) \<noteq> location_str (locs ! 1))
   \<and> (\<exists>loc p'. get_random_location 0 new_pool = Inr (loc, p')
        \<and> \<not> (\<forall>l\<in>set LOCATIONS. location_str l \<in> used_locations new_pool)
        \<and> location_str loc \<notin> used_locations new_pool
        \<and> used_locations p' = insert (location_str loc) (used_locations new_pool))"
proof -
  have ne: "\<not> (\<forall>l\<in>set LOCATIONS. location_str l \<in> used_locations new_pool)"
    using length_LOCATIONS by (auto simp: new_pool_def)
  have d: "(0::nat) div length LOCATIONS = 1 div length LOCATIONS"
    by (simp add: length_LOCATIONS)
  from random_unused_no_repeat [of "[0, 0]" 0 new_pool] ne d show ?thesis
    by (auto simp del: One_nat_def)
qed

section \<open>Properties of the fingerprint generator\<close>

lemma contains_str_here: "contains_str needle (needle @ b)"
proof (cases "needle @ b")
  case Nil
  then show ?thesis by simp
next
  case (Cons c cs)
  have "take (length needle) (needle @ b) = needle" by simp
  then have "take (length needle) (c # cs) = needle" using Cons by simp
  then have "contains_str needle (c # cs)" by simp
  then show ?thesis using Cons by simp
qed

lemma contains_str_append: "contains_str needle (a @ needle @ b)"
proof (induction a)
  case Nil
  show ?case using contains_str_here by simp
next
  case (Cons c a)
  then show ?case by simp
qed

lemma search_chrome_major_skip:
  "CHR ''C'' \<notin> set pre \<Longrightarrow> search_chrome_major (pre @ s) = search_chrome_major s"
  by (induction pre) auto

lemma search_chrome_major_versions:
  assumes "cv \<in> set CHROME_VERSIONS"
  shows "search_chrome_major (''Chrome/'' @ cv @ '' Safari/537.36'') = Some (takeWhile is_digit cv)
         \<and> takeWhile is_digit cv \<in> {''120'', ''119'', ''118'', ''117'', ''116'', ''115''}"
  using assms by (auto simp: CHROME_VERSIONS_def is_digit_def)

lemma get_geographic_viewport_ok: "\<exists>vp. get_geographic_viewport l r = Inr vp"
  by (simp add: get_geographic_viewport_def choice_def RESOLUTIONS_def)

lemma generate_shape:
  "\<exists>cfg v cv vp al.
      cfg \<in> set OS_CONFIGS \<and> v \<in> set (versions cfg) \<and> cv \<in> set CHROME_VERSIONS
      \<and> generate clock rnd l =
          Inr \<lparr>user_agent =
                 (if os cfg = ''Windows''
                  then ''Mozilla/5.0 ('' @ os cfg @ '' NT '' @ v @ ''; '' @ platform cfg @ '') ''
                  else ''Mozilla/5.0 ('' @ os cfg @ ''; '' @ platform cfg @ '' '' @ v @ '') '')
                 @ ''AppleWebKit/537.36 (KHTML, like Gecko) Chrome/'' @ cv @ '' Safari/537.36'',
               fp_viewport = vp,
               fp_headers =
                 [(''accept-language'', al),
                  (''sec-ch-ua-timezone'',
                   dict_get_default TIMEZONE_MAP (lower (bf_state l)) ''America/Chicago''),
                  (''cookie'',
                   ''timezone_offset=''
                   @ clock (dict_get_default TIMEZONE_MAP (lower (bf_state l)) ''America/Chicago'')
                   @ '';'')],
               timezone_id = dict_get_default TIMEZONE_MAP (lower (bf_state l)) ''America/Chicago'',
               evaluateOnNewDocument = [NavigatorOverride, WebGLOverride, CanvasOverride]\<rparr>"
proof -
  have "OS_CONFIGS \<noteq> []" by (simp add: OS_CONFIGS_def)
  then obtain cfg where cfg: "choice OS_CONFIGS (rnd_os rnd) = Inr cfg" "cfg \<in> set OS_CONFIGS"
    using choice_mem by blast
  from cfg(2) have "versions cfg \<noteq> []" by (auto simp: OS_CONFIGS_def)
  then obtain v where v: "choice (versions cfg) (rnd_os_version rnd) = Inr v" "v \<in> set (versions cfg)"
    using choice_mem by blast
  have "CHROME_VERSIONS \<noteq> []" by (simp add: CHROME_VERSIONS_def)
  then obtain cv where cv: "choice CHROME_VERSIONS (rnd_chrome rnd) = Inr cv" "cv \<in> set CHROME_VERSIONS"
    using choice_mem by blast
  obtain vp where vp: "get_geographic_viewport l (rnd_viewport rnd) = Inr vp"
    using get_geographic_viewport_ok by blast
  let ?al = "join '','' (map (\<lambda>(i, lang). lang @ '';q='' @ q_weight i)
                 (zip [0..<length (shuffle [''en-US'', ''en-GB'', ''en-CA'', ''en''] (rnd_shuffle rnd))]
                      (shuffle [''en-US'', ''en-GB'', ''en-CA'', ''en''] (rnd_shuffle rnd))))"
  have "generate clock rnd l =
          Inr \<lparr>user_agent =
                 (if os cfg = ''Windows''
                  then ''Mozilla/5.0 ('' @ os cfg @ '' NT '' @ v @ ''; '' @ platform cfg @ '') ''
                  else ''Mozilla/5.0 ('' @ os cfg @ ''; '' @ platform cfg @ '' '' @ v @ '') '')
                 @ ''AppleWebKit/537.36 (KHTML, like Gecko) Chrome/'' @ cv @ '' Safari/537.36'',
               fp_viewport = vp,
               fp_headers =
                 [(''accept-language'', ?al),
                  (''sec-ch-ua-timezone'',
                   dict_get_default TIMEZONE_MAP (lower (bf_state l)) ''America/Chicago''),
                  (''cookie'',
                   ''timezone_offset=''
                   @ clock (dict_get_default TIMEZONE_MAP (lower (bf_state l)) ''America/Chicago'')
                   @ '';'')],
               timezone_id = dict_get_default TIMEZONE_MAP (lower (bf_state l)) ''America/Chicago'',
               evaluateOnNewDocument = [NavigatorOverride, WebGLOverride, CanvasOverride]\<rparr>"
    using cfg(1) v(1) cv(1) vp by (simp add: generate_def Let_def)
  with cfg(2) v(2) cv(2) show ?thesis by blast
qed

lemma ua_windows:
  assumes "v \<in> {''10.0'', ''11.0''}" "cv \<in> set CHROME_VERSIONS"
  defines "ua \<equiv> ''Mozilla/5.0 ('' @ ''Windows'' @ '' NT '' @ v @ ''; '' @ ''Win64; x64'' @ '') ''
          @ ''AppleWebKit/537.36 (KHTML, like Gecko) Chrome/'' @ cv @ '' Safari/537.36''"
  shows "contains_str ''Windows'' ua"
    and "contains_str (''Chrome/'' @ cv) ua"
    and "search_chrome_major ua = Some (takeWhile is_digit cv)"
proof -
  show "contains_str ''Windows'' ua"
    unfolding ua_def using contains_str_append [of "''Windows''" "''Mozilla/5.0 (''"] by simp
  let ?pre = "''Mozilla/5.0 (Windows NT '' @ v @ ''; Win64; x64) AppleWebKit/537.36 (KHTML, like Gecko) ''"
  have ua: "ua = ?pre @ (''Chrome/'' @ cv) @ '' Safari/537.36''" by (simp add: ua_def)
  show "contains_str (''Chrome/'' @ cv) ua"
    unfolding ua by (rule contains_str_append)
  have "CHR ''C'' \<notin> set ?pre" using assms(1) by auto
  from search_chrome_major_skip [OF this, of "''Chrome/'' @ cv @ '' Safari/537.36''"]
  show "search_chrome_major ua = Some (takeWhile is_digit cv)"
    using search_chrome_major_versions [OF assms(2)] by (simp add: ua)
qed

lemma ua_macintosh:
  assumes "v \<in> {''10_15_7'', ''11_0_0'', ''12_0_0'', ''13_0_0''}" "cv \<in> set CHROME_VERSIONS"
  defines "ua \<equiv> ''Mozilla/5.0 ('' @ ''Macintosh'' @ ''; '' @ ''Intel Mac OS X'' @ '' '' @ v @ '') ''
          @ ''AppleWebKit/537.36 (KHTML, like Gecko) Chrome/'' @ cv @ '' Safari/537.36''"
  shows "contains_str ''Macintosh'' ua"
    and "contains_str (''Chrome/'' @ cv) ua"
    and "search_chrome_major ua = Some (takeWhile is_digit cv)"
proof -
  show "contains_str ''Macintosh'' ua"
    unfolding ua_def using contains_str_append [of "''Macintosh''" "''Mozilla/5.0 (''"] by simp
  let ?pre = "''Mozilla/5.0 (Macintosh; Intel Mac OS X '' @ v @ '') AppleWebKit/537.36 (KHTML, like Gecko) ''"
  have ua: "ua = ?pre @ (''Chrome/'' @ cv) @ '' Safari/537.36''" by (simp add: ua_def)
  show "contains_str (''Chrome/'' @ cv) ua"
    unfolding ua by (rule contains_str_append)
  have "CHR ''C'' \<notin> set ?pre" using assms(1) by auto
  from search_chrome_major_skip [OF this, of "''Chrome/'' @ cv @ '' Safari/537.36''"]
  show "search_chrome_major ua = Some (takeWhile is_digit cv)"
    using search_chrome_major_versions [OF assms(2)] by (simp add: ua)
qed

text \<open>
  Claim C10. Whatever the draws, the clock and the location, fingerprint generation
  succeeds and its user-agent string contains \<open>Windows\<close> or \<open>Macintosh\<close> and a marker
  \<open>Chrome/<version>\<close> for one of the listed versions. The version search of the
  client-hint derivation therefore finds the major version (the fallback is not taken),
  and the derived platform token is \<open>"Windows"\<close> or \<open>"macOS"\<close>, never the Linux one.
\<close>

theorem generated_ua_client_hints:
  "\<exists>fp cv. generate clock rnd l = Inr fp
      \<and> (contains_str ''Windows'' (user_agent fp) \<or> contains_str ''Macintosh'' (user_agent fp))
      \<and> cv \<in> set CHROME_VERSIONS
      \<and> contains_str (''Chrome/'' @ cv) (user_agent fp)
      \<and> search_chrome_major (user_agent fp) = Some (takeWhile is_digit cv)
      \<and> (fst (infer_client_hints_from_ua (user_agent fp)) = dq ''Windows''
          \<or> fst (infer_client_hints_from_ua (user_agent fp)) = dq ''macOS'')"
proof -
  from generate_shape [of clock rnd l]
  obtain fp cfg v cv where g: "generate clock rnd l = Inr fp"
      "cfg \<in> set OS_CONFIGS" "v \<in> set (versions cfg)" "cv \<in> set CHROME_VERSIONS"
      "user_agent fp =
          (if os cfg = ''Windows''
           then ''Mozilla/5.0 ('' @ os cfg @ '' NT '' @ v @ ''; '' @ platform cfg @ '') ''
           else ''Mozilla/5.0 ('' @ os cfg @ ''; '' @ platform cfg @ '' '' @ v @ '') '')
          @ ''AppleWebKit/537.36 (KHTML, like Gecko) Chrome/'' @ cv @ '' Safari/537.36''"
    by force
  from g(2) consider
      (win) "cfg = \<lparr>os = ''Windows'', versions = [''10.0'', ''11.0''], platform = ''Win64; x64''\<rparr>"
    | (mac) "cfg = \<lparr>os = ''Macintosh'', versions = [''10_15_7'', ''11_0_0'', ''12_0_0'', ''13_0_0''],
                    platform = ''Intel Mac OS X''\<rparr>"
    by (auto simp: OS_CONFIGS_def)
  then have "(contains_str ''Windows'' (user_agent fp) \<or> contains_str ''Macintosh'' (user_agent fp))
      \<and> contains_str (''Chrome/'' @ cv) (user_agent fp)
      \<and> search_chrome_major (user_agent fp) = Some (takeWhile is_digit cv)"
  proof cases
    case win
    with g(3) have v: "v \<in> {''10.0'', ''11.0''}" by simp
    from win g(5) have ua: "user_agent fp = ''Mozilla/5.0 ('' @ ''Windows'' @ '' NT '' @ v @ ''; '' @ ''Win64; x64'' @ '') ''
          @ ''AppleWebKit/537.36 (KHTML, like Gecko) Chrome/'' @ cv @ '' Safari/537.36''" by simp
    show ?thesis unfolding ua using ua_windows [OF v g(4)] by blast
  next
    case mac
    with g(3) have v: "v \<in> {''10_15_7'', ''11_0_0'', ''12_0_0'', ''13_0_0''}" by simp
    from mac g(5) have ua: "user_agent fp = ''Mozilla/5.0 ('' @ ''Macintosh'' @ ''; '' @ ''Intel Mac OS X'' @ '' '' @ v @ '') ''
          @ ''AppleWebKit/537.36 (KHTML, like Gecko) Chrome/'' @ cv @ '' Safari/537.36''" by simp
    show ?thesis unfolding ua using ua_macintosh [OF v g(4)] by blast
  qed
  moreover from this
  have "fst (infer_client_hints_from_ua (user_agent fp)) = dq ''Windows''
          \<or> fst (infer_client_hints_from_ua (user_agent fp)) = dq ''macOS''"
    by (auto simp: infer_client_hints_from_ua_def Let_def)
  ultimately show ?thesis using g(1,4) by blast
qed

text \<open>
  The timezone of a fingerprint, as identifier and as client hint, is the entry of the
  timezone table for the lower-cased region, or \<open>America/Chicago\<close> for an unmapped region.
\<close>

lemma generate_timezone_hint:
  "\<exists>fp. generate clock rnd l = Inr fp
      \<and> timezone_id fp = dict_get_default TIMEZONE_MAP (lower (bf_state l)) ''America/Chicago''
      \<and> map_of (fp_headers fp) ''sec-ch-ua-timezone''
          = Some (dict_get_default TIMEZONE_MAP (lower (bf_state l)) ''America/Chicago'')"
proof -
  from generate_shape [of clock rnd l] obtain fp where
    "generate clock rnd l = Inr fp"
    "timezone_id fp = dict_get_default TIMEZONE_MAP (lower (bf_state l)) ''America/Chicago''"
    "fp_headers fp ! 1 = (''sec-ch-ua-timezone'',
        dict_get_default TIMEZONE_MAP (lower (bf_state l)) ''America/Chicago'')"
    "fst (fp_headers fp ! 0) = ''accept-language''" "length (fp_headers fp) = 3"
    by force
  moreover from this(3,4,5) have "map_of (fp_headers fp) ''sec-ch-ua-timezone''
          = Some (dict_get_default TIMEZONE_MAP (lower (bf_state l)) ''America/Chicago'')"
    by (cases "fp_headers fp"; cases "tl (fp_headers fp)") auto
  ultimately show ?thesis by blast
qed

text \<open>
  Claim C8, at the regions \<open>ca\<close> and \<open>wa\<close>. The locale table gives \<open>en-CA\<close> for \<open>ca\<close> and
  \<open>en-US\<close> for \<open>wa\<close>, yet for equal draws and clock the two fingerprints are equal: the
  locale that \<open>generate\<close> looks up reaches no field of the fingerprint. With the language
  order left as it is, the fingerprint for \<open>ca\<close> prefers \<open>en-US\<close> in its accept-language
  header.
\<close>

theorem generate_locale_unused:
  "dict_get_default LOCALE_MAP (lower (bf_state (BFProxyLocation ''ca''))) ''en-US'' = ''en-CA''
   \<and> dict_get_default LOCALE_MAP (lower (bf_state (BFProxyLocation ''wa''))) ''en-US'' = ''en-US''
   \<and> generate clock rnd (BFProxyLocation ''ca'') = generate clock rnd (BFProxyLocation ''wa'')
   \<and> generate (\<lambda>z. ''-0800'')
         \<lparr>rnd_os = 0, rnd_os_version = 0, rnd_chrome = 0, rnd_viewport = 0,
          rnd_shuffle = (\<lambda>i. i)\<rparr>
         (BFProxyLocation ''ca'')
       = Inr \<lparr>user_agent = ''Mozilla/5.0 (Windows NT 10.0; Win64; x64) AppleWebKit/537.36 (KHTML, like Gecko) Chrome/120.0.0.0 Safari/537.36'',
              fp_viewport = \<lparr>width = 1920, height = 1080\<rparr>,
              fp_headers = [(''accept-language'', ''en-US;q=1.0,en-GB;q=0.9,en-CA;q=0.8,en;q=0.7''),
                            (''sec-ch-ua-timezone'', ''America/Los_Angeles''),
                            (''cookie'', ''timezone_offset=-0800;'')],
              timezone_id = ''America/Los_Angeles'',
              evaluateOnNewDocument = [NavigatorOverride, WebGLOverride, CanvasOverride]\<rparr>"
proof (intro conjI)
  show "dict_get_default LOCALE_MAP (lower (bf_state (BFProxyLocation ''ca''))) ''en-US'' = ''en-CA''"
    by (simp add: dict_get_default_def LOCALE_MAP_def BFProxyLocation_def lower_def lower_char_def)
  show "dict_get_default LOCALE_MAP (lower (bf_state (BFProxyLocation ''wa''))) ''en-US'' = ''en-US''"
    by (simp add: dict_get_default_def LOCALE_MAP_def BFProxyLocation_def lower_def lower_char_def)
  have tz: "dict_get_default TIMEZONE_MAP (lower (bf_state (BFProxyLocation ''ca''))) ''America/Chicago''
      = dict_get_default TIMEZONE_MAP (lower (bf_state (BFProxyLocation ''wa''))) ''America/Chicago''"
    by (simp add: dict_get_default_def TIMEZONE_MAP_def BFProxyLocation_def lower_def lower_char_def)
  have vp: "get_geographic_viewport (BFProxyLocation ''ca'') r
      = get_geographic_viewport (BFProxyLocation ''wa'') r" for r
    by (simp add: get_geographic_viewport_def BFProxyLocation_def lower_def lower_char_def)
  show "generate clock rnd (BFProxyLocation ''ca'') = generate clock rnd (BFProxyLocation ''wa'')"
    unfolding generate_def tz vp by simp
  show "generate (\<lambda>z. ''-0800'')
         \<lparr>rnd_os = 0, rnd_os_version = 0, rnd_chrome = 0, rnd_viewport = 0,
          rnd_shuffle = (\<lambda>i. i)\<rparr>
         (BFProxyLocation ''ca'')
       = Inr \<lparr>user_agent = ''Mozilla/5.0 (Windows NT 10.0; Win64; x64) AppleWebKit/537.36 (KHTML, like Gecko) Chrome/120.0.0.0 Safari/537.36'',
              fp_viewport = \<lparr>width = 1920, height = 1080\<rparr>,
              fp_headers = [(''accept-language'', ''en-US;q=1.0,en-GB;q=0.9,en-CA;q=0.8,en;q=0.7''),
                            (''sec-ch-ua-timezone'', ''America/Los_Angeles''),
                            (''cookie'', ''timezone_offset=-0800;'')],
              timezone_id = ''America/Los_Angeles'',
              evaluateOnNewDocument = [NavigatorOverride, WebGLOverride, CanvasOverride]\<rparr>"
    by code_simp
qed

section \<open>Properties of the search executor\<close>

lemma get_random_location_ok: "\<exists>loc p'. get_random_location r p = Inr (loc, p')"
proof (cases "\<forall>l\<in>set LOCATIONS. location_str l \<in> used_locations p")
  case True
  from get_random_location_reset [OF True, of r] show ?thesis by blast
next
  case False
  then have "\<exists>l\<in>set LOCATIONS. location_str l \<notin> used_locations p" by blast
  from get_random_location_unused [OF this, of r] show ?thesis by blast
qed

lemma get_random_proxy_ok:
  "\<exists>conf proxy' url. get_random_proxy proxy r = Inr (conf, proxy') \<and> map_of conf ''url'' = Some url"
proof -
  obtain loc p' where "get_random_location r (proxy_pool proxy) = Inr (loc, p')"
    using get_random_location_ok by blast
  then show ?thesis
    by (simp add: get_random_proxy_def proxy_conf_for_def get_url_def get_full_username_def)
qed

lemma generate_ok: "\<exists>fp. generate clock rnd l = Inr fp"
  using generate_shape [of clock rnd l] by blast

lemma attempt_cases:
  "\<exists>proxy' u hs.
     attempt e params proxy =
       (if retryable (http e)
        then (Continue (diagnostic (http e)), proxy',
              [Request u params hs, Sleep (uniform (1/4) (4/5) (rnd_jitter e))])
        else (case http e of
                Responded resp \<Rightarrow> (Returned (handle_success resp), proxy', [Request u params hs])
              | Raised msg \<Rightarrow> (Continue msg, proxy', [])))"
proof -
  obtain conf proxy' url where c: "get_random_proxy proxy (rnd_location e) = Inr (conf, proxy')"
      "map_of conf ''url'' = Some url"
    using get_random_proxy_ok by blast
  obtain fp where fp: "generate (utc_offset e) (rnd_fp e)
      (BFProxyLocation (parse_state_from_location (dict_get_default conf ''location'' []))) = Inr fp"
    using generate_ok by blast
  have "attempt e params proxy =
       (if retryable (http e)
        then (Continue (diagnostic (http e)), proxy',
              [Request url params (build_headers fp), Sleep (uniform (1/4) (4/5) (rnd_jitter e))])
        else (case http e of
                Responded resp \<Rightarrow> (Returned (handle_success resp), proxy', [Request url params (build_headers fp)])
              | Raised msg \<Rightarrow> (Continue msg, proxy', [])))"
    using c fp
    by (simp add: attempt_def Let_def fail_and_sleep_def retryable_def diagnostic_def
             split: http_outcome.split)
  then show ?thesis by blast
qed

lemma attempt_retry:
  assumes "retryable (http e)"
  shows "\<exists>proxy' u hs. attempt e params proxy =
           (Continue (diagnostic (http e)), proxy',
            [Request u params hs, Sleep (uniform (1/4) (4/5) (rnd_jitter e))])"
  using attempt_cases [of e params proxy] assms by simp

lemma attempt_success:
  assumes "http e = Responded resp" "200 \<le> status_code resp" "status_code resp < 300"
  shows "\<exists>proxy' u hs. attempt e params proxy =
           (Returned (handle_success resp), proxy', [Request u params hs])"
  using attempt_cases [of e params proxy] assms by (simp add: retryable_def)

lemma loop_all_fail:
  assumes "\<forall>j<n. retryable (http (env (i + j)))"
  shows "\<exists>proxy' evs.
           attempts_loop n i env params proxy lerr =
             (Inl (TradingViewProxyError
                     (''TradingView search failed after retries: ''
                      @ (if n = 0 then (case lerr of None \<Rightarrow> ''None'' | Some m \<Rightarrow> m)
                         else diagnostic (http (env (i + n - 1)))))),
              proxy', evs)
         \<and> length (filter is_request evs) = n
         \<and> filter is_sleep evs
             = map (\<lambda>j. Sleep (uniform (1/4) (4/5) (rnd_jitter (env (i + j))))) [0..<n]"
  using assms
proof (induction n arbitrary: i proxy lerr)
  case 0
  show ?case by simp
next
  case (Suc n)
  from Suc.prems have r0: "retryable (http (env i))" by force
  from attempt_retry [OF r0, of params proxy]
  obtain proxy1 u hs where a: "attempt (env i) params proxy =
           (Continue (diagnostic (http (env i))), proxy1,
            [Request u params hs, Sleep (uniform (1/4) (4/5) (rnd_jitter (env i)))])"
    by blast
  have "\<forall>j<n. retryable (http (env (Suc i + j)))"
  proof (intro allI impI)
    fix j assume "j < n"
    then have "Suc j < Suc n" by simp
    with Suc.prems have "retryable (http (env (i + Suc j)))" by blast
    then show "retryable (http (env (Suc i + j)))" by simp
  qed
  from Suc.IH [OF this, of proxy1 "Some (diagnostic (http (env i)))"]
  obtain proxy2 evs where ih:
      "attempts_loop n (Suc i) env params proxy1 (Some (diagnostic (http (env i)))) =
             (Inl (TradingViewProxyError
                     (''TradingView search failed after retries: ''
                      @ (if n = 0 then diagnostic (http (env i))
                         else diagnostic (http (env (Suc i + n - 1)))))),
              proxy2, evs)"
      "length (filter is_request evs) = n"
      "filter is_sleep evs
             = map (\<lambda>j. Sleep (uniform (1/4) (4/5) (rnd_jitter (env (Suc i + j))))) [0..<n]"
    by auto
  let ?evs = "[Request u params hs, Sleep (uniform (1/4) (4/5) (rnd_jitter (env i)))] @ evs"
  have msg: "(if n = 0 then diagnostic (http (env i)) else diagnostic (http (env (Suc i + n - 1))))
      = diagnostic (http (env (i + Suc n - 1)))"
    by (cases n) simp_all
  have l: "attempts_loop (Suc n) i env params proxy lerr =
             (Inl (TradingViewProxyError
                     (''TradingView search failed after retries: ''
                      @ diagnostic (http (env (i + Suc n - 1))))),
              proxy2, ?evs)"
    using a ih(1) msg by simp
  have s: "filter is_sleep ?evs
      = map (\<lambda>j. Sleep (uniform (1/4) (4/5) (rnd_jitter (env (i + j))))) [0..<Suc n]"
    using ih(3) by (simp add: upt_conv_Cons [of 0 "Suc n"] map_Suc_upt [symmetric] del: upt_Suc)
  have q: "length (filter is_request ?evs) = Suc n" using ih(2) by simp
  from l s q show ?case by auto
qed

lemma loop_first_success:
  assumes "k < n" "\<forall>j<k. retryable (http (env (i + j)))"
    and "http (env (i + k)) = Responded resp" "200 \<le> status_code resp" "status_code resp < 300"
  shows "fst (attempts_loop n i env params proxy lerr) = Inr (handle_success resp)"
  using assms
proof (induction k arbitrary: n i proxy lerr)
  case 0
  then obtain m where n: "n = Suc m" by (cases n) auto
  from attempt_success [of "env i" resp params proxy] 0
  obtain proxy' u hs where "attempt (env i) params proxy =
           (Returned (handle_success resp), proxy', [Request u params hs])" by auto
  then show ?case by (simp add: n)
next
  case (Suc k)
  then obtain m where n: "n = Suc m" "k < m" by (cases n) auto
  from Suc.prems(2) have r0: "retryable (http (env i))" by force
  from attempt_retry [OF r0, of params proxy]
  obtain proxy1 u hs where a: "attempt (env i) params proxy =
           (Continue (diagnostic (http (env i))), proxy1,
            [Request u params hs, Sleep (uniform (1/4) (4/5) (rnd_jitter (env i)))])"
    by blast
  have p2: "\<forall>j<k. retryable (http (env (Suc i + j)))"
  proof (intro allI impI)
    fix j assume "j < k"
    then have "Suc j < Suc k" by simp
    with Suc.prems(2) have "retryable (http (env (i + Suc j)))" by blast
    then show "retryable (http (env (Suc i + j)))" by simp
  qed
  have p3: "http (env (Suc i + k)) = Responded resp" using Suc.prems(3) by simp
  from Suc.IH [OF n(2) p2 p3 Suc.prems(4,5), of proxy1 "Some (diagnostic (http (env i)))"]
  have "fst (attempts_loop m (Suc i) env params proxy1 (Some (diagnostic (http (env i)))))
        = Inr (handle_success resp)" .
  then show ?case using a by (cases "attempts_loop m (Suc i) env params proxy1 (Some (diagnostic (http (env i))))") (simp add: n(1))
qed

lemma attempt_request_params:
  "\<forall>ev\<in>set (snd (snd (attempt e params proxy))). \<forall>u ps hs. ev = Request u ps hs \<longrightarrow> ps = params"
  using attempt_cases [of e params proxy]
  by (auto split: if_splits http_outcome.splits)

lemma loop_request_params:
  "\<forall>ev\<in>set (snd (snd (attempts_loop n i env params proxy lerr))).
      \<forall>u ps hs. ev = Request u ps hs \<longrightarrow> ps = params"
proof (induction n arbitrary: i proxy lerr)
  case 0
  show ?case by simp
next
  case (Suc n)
  obtain r proxy1 evs where a: "attempt (env i) params proxy = (r, proxy1, evs)"
    by (cases "attempt (env i) params proxy") auto
  have e1: "\<forall>ev\<in>set evs. \<forall>u ps hs. ev = Request u ps hs \<longrightarrow> ps = params"
    using attempt_request_params [of "env i" params proxy] a by simp
  show ?case
  proof (cases r)
    case (Returned res)
    then show ?thesis using a e1 by simp
  next
    case (Continue err)
    obtain res proxy2 evs' where l: "attempts_loop n (Suc i) env params proxy1 (Some err) = (res, proxy2, evs')"
      by (cases "attempts_loop n (Suc i) env params proxy1 (Some err)") auto
    have e2: "\<forall>ev\<in>set evs'. \<forall>u ps hs. ev = Request u ps hs \<longrightarrow> ps = params"
      using Suc.IH [of "Suc i" proxy1 "Some err"] l by simp
    show ?thesis using a Continue l e1 e2 by auto
  qed
qed

lemma setdefault_append:
  "setdefault d k v = d @ (if k \<in> fst ` set d then [] else [(k, v)])"
proof (cases "map_of d k")
  case None
  then have "k \<notin> fst ` set d" by (simp add: map_of_eq_None_iff)
  with None show ?thesis by (simp add: setdefault_def)
next
  case (Some w)
  then have "(k, w) \<in> set d" by (rule map_of_SomeD)
  then have "k \<in> fst ` set d" by force
  with Some show ?thesis by (simp add: setdefault_def)
qed

lemma default_params:
  "setdefault (setdefault params ''lang'' ''en'') ''limit'' ''50''
     = params @ (if ''lang'' \<in> fst ` set params then [] else [(''lang'', ''en'')])
              @ (if ''limit'' \<in> fst ` set params then [] else [(''limit'', ''50'')])"
  by (simp add: setdefault_append)

lemma loop_makes_request:
  "\<exists>u hs. Request u params hs \<in> set (snd (snd (attempts_loop (Suc n) i env params proxy lerr)))"
proof -
  from attempt_cases [of "env i" params proxy]
  obtain proxy1 u hs where a: "attempt (env i) params proxy =
       (if retryable (http (env i))
        then (Continue (diagnostic (http (env i))), proxy1,
              [Request u params hs, Sleep (uniform (1/4) (4/5) (rnd_jitter (env i)))])
        else (case http (env i) of
                Responded resp \<Rightarrow> (Returned (handle_success resp), proxy1, [Request u params hs])
              | Raised msg \<Rightarrow> (Continue msg, proxy1, [])))"
    by blast
  show ?thesis
  proof (cases "retryable (http (env i))")
    case True
    obtain res proxy2 evs' where
      "attempts_loop n (Suc i) env params proxy1 (Some (diagnostic (http (env i)))) = (res, proxy2, evs')"
      by (cases "attempts_loop n (Suc i) env params proxy1 (Some (diagnostic (http (env i))))") auto
    with a True have "Request u params hs \<in> set (snd (snd (attempts_loop (Suc n) i env params proxy lerr)))"
      by simp
    then show ?thesis by blast
  next
    case False
    then obtain resp where "http (env i) = Responded resp"
      by (cases "http (env i)") (auto simp: retryable_def)
    with a False have "Request u params hs \<in> set (snd (snd (attempts_loop (Suc n) i env params proxy lerr)))"
      by simp
    then show ?thesis by blast
  qed
qed

text \<open>
  Claim C9. Every GET that a call of the search issues carries the caller's parameters,
  in their order, followed by \<open>lang=en\<close> exactly when the caller gave no \<open>lang\<close> and by
  \<open>limit=50\<close> exactly when the caller gave no \<open>limit\<close>; no caller-supplied entry is changed.
\<close>

theorem search_params_defaults:
  "\<forall>ev\<in>set (snd (snd (tradingview_symbol_search env proxy params attempts))).
      \<forall>u ps hs. ev = Request u ps hs \<longrightarrow>
        ps = params @ (if ''lang'' \<in> fst ` set params then [] else [(''lang'', ''en'')])
                    @ (if ''limit'' \<in> fst ` set params then [] else [(''limit'', ''50'')])"
  using loop_request_params [of attempts 0 env "setdefault (setdefault params ''lang'' ''en'') ''limit'' ''50''" proxy None]
  unfolding tradingview_symbol_search_def Let_def default_params .

theorem search_params_defaults_witness:
  "\<exists>u hs. Request u [(''lang'', ''fr''), (''limit'', ''50'')] hs
       \<in> set (snd (snd (tradingview_symbol_search
                (\<lambda>k. \<lparr>rnd_location = 0,
                        rnd_fp = \<lparr>rnd_os = 0, rnd_os_version = 0, rnd_chrome = 0,
                                  rnd_viewport = 0, rnd_shuffle = (\<lambda>i. i)\<rparr>,
                        utc_offset = (\<lambda>z. ''-0800''),
                        http = Raised ''timed out'',
                        rnd_jitter = 1/2\<rparr>)
                (OxyLabsProxy ''u'' ''p'') [(''lang'', ''fr'')] 1)))"
proof -
  let ?env = "\<lambda>k::nat. \<lparr>rnd_location = 0,
                        rnd_fp = \<lparr>rnd_os = 0, rnd_os_version = 0, rnd_chrome = 0,
                                  rnd_viewport = 0, rnd_shuffle = (\<lambda>i. i)\<rparr>,
                        utc_offset = (\<lambda>z. ''-0800''),
                        http = Raised ''timed out'',
                        rnd_jitter = 1/2\<rparr>"
  let ?proxy = "OxyLabsProxy ''u'' ''p''"
  let ?t = "snd (snd (tradingview_symbol_search ?env ?proxy [(''lang'', ''fr'')] 1))"
  from loop_makes_request [of "setdefault (setdefault [(''lang'', ''fr'')] ''lang'' ''en'') ''limit'' ''50''" 0 0 ?env ?proxy None]
  obtain u ps hs where r: "Request u ps hs \<in> set ?t"
    unfolding tradingview_symbol_search_def Let_def by auto
  from search_params_defaults [of ?env ?proxy "[(''lang'', ''fr'')]" 1] r
  have "ps = [(''lang'', ''fr'')] @ (if ''lang'' \<in> fst ` set [(''lang'', ''fr'')] then [] else [(''lang'', ''en'')])
                    @ (if ''limit'' \<in> fst ` set [(''lang'', ''fr'')] then [] else [(''limit'', ''50'')])"
    by blast
  then have "ps = [(''lang'', ''fr''), (''limit'', ''50'')]" by simp
  with r show ?thesis by blast
qed

lemma normalize_payload_other_shape:
  assumes "\<forall>xs. d \<noteq> JList xs"
    and "\<forall>kvs xs. d = JDict kvs \<longrightarrow> map_of kvs ''symbols'' \<noteq> Some (JList xs)"
  shows "normalize_payload d = Inr None"
proof (cases d)
  case (JDict kvs)
  show ?thesis
  proof (cases "map_of kvs ''symbols''")
    case None
    with JDict show ?thesis by (simp add: normalize_payload_def)
  next
    case (Some v)
    with assms(2) JDict have "\<forall>xs. v \<noteq> JList xs" by simp
    with Some JDict show ?thesis by (cases v) (simp_all add: normalize_payload_def)
  qed
qed (use assms(1) in \<open>simp_all add: normalize_payload_def\<close>)

lemma handle_success_malformed:
  assumes "json_body resp = None
           \<or> (\<exists>d. json_body resp = Some d \<and> (\<forall>xs. d \<noteq> JList xs)
                  \<and> (\<forall>kvs xs. d = JDict kvs \<longrightarrow> map_of kvs ''symbols'' \<noteq> Some (JList xs)))"
  shows "handle_success resp =
           (RawContent (content resp),
            (case content_type_header resp of None \<Rightarrow> ''application/json'' | Some c \<Rightarrow> c))"
  using assms
proof
  assume "json_body resp = None"
  then show ?thesis by (simp add: handle_success_def)
next
  assume "\<exists>d. json_body resp = Some d \<and> (\<forall>xs. d \<noteq> JList xs)
                  \<and> (\<forall>kvs xs. d = JDict kvs \<longrightarrow> map_of kvs ''symbols'' \<noteq> Some (JList xs))"
  then obtain d where d: "json_body resp = Some d" "\<forall>xs. d \<noteq> JList xs"
      "\<forall>kvs xs. d = JDict kvs \<longrightarrow> map_of kvs ''symbols'' \<noteq> Some (JList xs)"
    by blast
  from normalize_payload_other_shape [OF d(2,3)] d(1)
  show ?thesis by (simp add: handle_success_def)
qed

text \<open>
  Claim C7. When the passes before pass \<open>k\<close> fail and pass \<open>k\<close> meets a response with a
  status in \<open>[200, 300)\<close> whose body does not parse as JSON, or parses to something that
  is neither a list nor a dict with a list under \<open>symbols\<close>, the search raises nothing: it
  returns the raw content of that response with its content-type header (the default
  \<open>application/json\<close> of the header lookup when the response has none).
\<close>

theorem malformed_payload_passthrough:
  assumes "k < attempts"
    and "\<forall>j<k. retryable (http (env j))"
    and "http (env k) = Responded resp"
    and "200 \<le> status_code resp" and "status_code resp < 300"
    and "json_body resp = None
         \<or> (\<exists>d. json_body resp = Some d \<and> (\<forall>xs. d \<noteq> JList xs)
                \<and> (\<forall>kvs xs. d = JDict kvs \<longrightarrow> map_of kvs ''symbols'' \<noteq> Some (JList xs)))"
  shows "fst (tradingview_symbol_search env proxy params attempts) =
           Inr (RawContent (content resp),
                (case content_type_header resp of None \<Rightarrow> ''application/json'' | Some c \<Rightarrow> c))"
proof -
  have "fst (tradingview_symbol_search env proxy params attempts) = Inr (handle_success resp)"
    unfolding tradingview_symbol_search_def Let_def
    by (rule loop_first_success [where k = k and i = 0, simplified, OF assms(1,2,3,4,5)])
  with handle_success_malformed [OF assms(6)] show ?thesis by simp
qed

theorem malformed_payload_passthrough_witness:
  "fst (tradingview_symbol_search
          (\<lambda>k. \<lparr>rnd_location = 0,
                  rnd_fp = \<lparr>rnd_os = 0, rnd_os_version = 0, rnd_chrome = 0, rnd_viewport = 0,
                            rnd_shuffle = (\<lambda>i. i)\<rparr>,
                  utc_offset = (\<lambda>z. ''-0800''),
                  http = (if k = 0 then Raised ''timed out''
                          else Responded \<lparr>status_code = 200, content = ''<html>busy</html>'',
                                           resp_text = ''<html>busy</html>'',
                                           content_type_header = Some ''text/html'',
                                           json_body = None\<rparr>),
                  rnd_jitter = 1/2\<rparr>)
          (OxyLabsProxy ''u'' ''p'') [] 3)
     = Inr (RawContent ''<html>busy</html>'', ''text/html'')
   \<and> fst (tradingview_symbol_search
          (\<lambda>k. \<lparr>rnd_location = 0,
                  rnd_fp = \<lparr>rnd_os = 0, rnd_os_version = 0, rnd_chrome = 0, rnd_viewport = 0,
                            rnd_shuffle = (\<lambda>i. i)\<rparr>,
                  utc_offset = (\<lambda>z. ''-0800''),
                  http = Responded \<lparr>status_code = 200, content = ''7'',
                                     resp_text = ''7'',
                                     content_type_header = None,
                                     json_body = Some (JInt 7)\<rparr>,
                  rnd_jitter = 1/2\<rparr>)
          (OxyLabsProxy ''u'' ''p'') [] 1)
     = Inr (RawContent ''7'', ''application/json'')"
proof
  let ?env = "\<lambda>k::nat. \<lparr>rnd_location = 0,
                  rnd_fp = \<lparr>rnd_os = 0, rnd_os_version = 0, rnd_chrome = 0, rnd_viewport = 0,
                            rnd_shuffle = (\<lambda>i. i)\<rparr>,
                  utc_offset = (\<lambda>z. ''-0800''),
                  http = (if k = 0 then Raised ''timed out''
                          else Responded \<lparr>status_code = 200, content = ''<html>busy</html>'',
                                           resp_text = ''<html>busy</html>'',
                                           content_type_header = Some ''text/html'',
                                           json_body = None\<rparr>),
                  rnd_jitter = 1/2\<rparr>"
  let ?resp = "\<lparr>status_code = 200, content = ''<html>busy</html>'',
                resp_text = ''<html>busy</html>'',
                content_type_header = Some ''text/html'', json_body = None\<rparr>"
  have "fst (tradingview_symbol_search ?env (OxyLabsProxy ''u'' ''p'') [] 3) =
           Inr (RawContent (content ?resp),
                (case content_type_header ?resp of None \<Rightarrow> ''application/json'' | Some c \<Rightarrow> c))"
    by (rule malformed_payload_passthrough [where k = 1]) (simp_all add: retryable_def)
  then show "fst (tradingview_symbol_search ?env (OxyLabsProxy ''u'' ''p'') [] 3)
      = Inr (RawContent ''<html>busy</html>'', ''text/html'')" by simp
next
  let ?resp = "\<lparr>status_code = 200, content = ''7'',
                 resp_text = ''7'',
                 content_type_header = None,
                 json_body = Some (JInt 7)\<rparr>"
  let ?env = "\<lambda>k::nat. \<lparr>rnd_location = 0,
                  rnd_fp = \<lparr>rnd_os = 0, rnd_os_version = 0, rnd_chrome = 0, rnd_viewport = 0,
                            rnd_shuffle = (\<lambda>i. i)\<rparr>,
                  utc_offset = (\<lambda>z. ''-0800''),
                  http = Responded ?resp,
                  rnd_jitter = 1/2\<rparr>"
  have "fst (tradingview_symbol_search ?env (OxyLabsProxy ''u'' ''p'') [] 1) =
           Inr (RawContent (content ?resp),
                (case content_type_header ?resp of None \<Rightarrow> ''application/json'' | Some c \<Rightarrow> c))"
    by (rule malformed_payload_passthrough [where k = 0]) simp_all
  then show "fst (tradingview_symbol_search ?env (OxyLabsProxy ''u'' ''p'') [] 1)
      = Inr (RawContent ''7'', ''application/json'')" by simp
qed

lemma jitter_window:
  assumes "0 \<le> u" "u \<le> 1"
  shows "1/4 \<le> uniform (1/4) (4/5) u \<and> uniform (1/4) (4/5) u \<le> 4/5"
  using assms by (simp add: uniform_def)

lemma all_attempts_fail:
  assumes "\<forall>j<attempts. retryable (http (env j))" "0 < attempts"
  shows "\<exists>proxy' evs.
           tradingview_symbol_search env proxy params attempts =
             (Inl (TradingViewProxyError
                     (''TradingView search failed after retries: ''
                      @ diagnostic (http (env (attempts - 1))))),
              proxy', evs)
         \<and> length (filter is_request evs) = attempts
         \<and> filter is_sleep evs
             = map (\<lambda>j. Sleep (uniform (1/4) (4/5) (rnd_jitter (env j)))) [0..<attempts]"
  using loop_all_fail [of attempts env 0 "setdefault (setdefault params ''lang'' ''en'') ''limit'' ''50''" proxy None]
    assms
  by (simp add: tradingview_symbol_search_def Let_def)

text \<open>
  Claim C1, at three passes that all meet status 500 with body \<open>boom\<close> (the value of
  \<open>random()\<close> being \<open>1/2\<close> each time). The search raises the error with the last diagnostic
  after three requests, but each request is followed by a sleep, the third one too: three
  delays of 525 ms, the last one between the third failure and the raise.
\<close>

theorem retry_budget_sleeps_after_last_attempt:
  "fst (tradingview_symbol_search
          (\<lambda>k. \<lparr>rnd_location = 0,
                  rnd_fp = \<lparr>rnd_os = 0, rnd_os_version = 0, rnd_chrome = 0, rnd_viewport = 0,
                            rnd_shuffle = (\<lambda>i. i)\<rparr>,
                  utc_offset = (\<lambda>z. ''-0800''),
                  http = Responded \<lparr>status_code = 500, content = ''boom'', resp_text = ''boom'',
                                     content_type_header = None, json_body = None\<rparr>,
                  rnd_jitter = 1/2\<rparr>)
          (OxyLabsProxy ''u'' ''p'') [] 3)
     = Inl (TradingViewProxyError ''TradingView search failed after retries: 500 boom'')
   \<and> map is_sleep (snd (snd (tradingview_symbol_search
          (\<lambda>k. \<lparr>rnd_location = 0,
                  rnd_fp = \<lparr>rnd_os = 0, rnd_os_version = 0, rnd_chrome = 0, rnd_viewport = 0,
                            rnd_shuffle = (\<lambda>i. i)\<rparr>,
                  utc_offset = (\<lambda>z. ''-0800''),
                  http = Responded \<lparr>status_code = 500, content = ''boom'', resp_text = ''boom'',
                                     content_type_header = None, json_body = None\<rparr>,
                  rnd_jitter = 1/2\<rparr>)
          (OxyLabsProxy ''u'' ''p'') [] 3)))
     = [False, True, False, True, False, True]
   \<and> filter is_sleep (snd (snd (tradingview_symbol_search
          (\<lambda>k. \<lparr>rnd_location = 0,
                  rnd_fp = \<lparr>rnd_os = 0, rnd_os_version = 0, rnd_chrome = 0, rnd_viewport = 0,
                            rnd_shuffle = (\<lambda>i. i)\<rparr>,
                  utc_offset = (\<lambda>z. ''-0800''),
                  http = Responded \<lparr>status_code = 500, content = ''boom'', resp_text = ''boom'',
                                     content_type_header = None, json_body = None\<rparr>,
                  rnd_jitter = 1/2\<rparr>)
          (OxyLabsProxy ''u'' ''p'') [] 3)))
     = [Sleep (21/40), Sleep (21/40), Sleep (21/40)]"
  by code_simp

section \<open>Properties of the result normalizer\<close>


lemma falsy_key_distinct:
  assumes "py_hash_key a = Inr k" "py_hash_key b = Inr k"
  shows "py_truthy a = py_truthy b"
  using assms by (cases a; cases b) (auto split: if_splits)

lemma all_less_Suc_shift: "(\<forall>j<Suc i. Q j) = (Q 0 \<and> (\<forall>j<i. Q (Suc j)))"
  by (metis less_Suc_eq_0_disj)

lemma index_filter_Cons:
  "map (\<lambda>i. (x # xs) ! i) (filter P [0..<length (x # xs)])
     = (if P 0 then [x] else []) @ map (\<lambda>i. xs ! i) (filter (\<lambda>i. P (Suc i)) [0..<length xs])"
proof -
  have "[0..<length (x # xs)] = 0 # map Suc [0..<length xs]"
    by (simp add: upt_conv_Cons [of 0] map_Suc_upt del: upt_Suc)
  then show ?thesis by (simp add: filter_map o_def del: upt_Suc)
qed

lemma dedupe_index_form:
  assumes "\<forall>x\<in>set xs. (\<exists>item. x = JDict item)
             \<and> (py_truthy (symbol_of x) \<longrightarrow> (\<exists>k. py_hash_key (symbol_of x) = Inr k))"
  shows "dedupe seen xs =
     Inr (map (\<lambda>i. xs ! i)
            (filter (\<lambda>i. py_truthy (symbol_of (xs ! i))
                         \<and> py_hash_key (symbol_of (xs ! i)) \<notin> Inr ` seen
                         \<and> (\<forall>j<i. py_hash_key (symbol_of (xs ! j)) \<noteq> py_hash_key (symbol_of (xs ! i))))
                    [0..<length xs]))"
  using assms
proof (induction xs arbitrary: seen)
  case Nil
  show ?case by simp
next
  case (Cons x xs)
  from Cons.prems obtain item where x: "x = JDict item" by auto
  have sx: "symbol_of x = dict_get item ''symbol''" by (simp add: x symbol_of_def)
  have tail: "\<forall>y\<in>set xs. (\<exists>item. y = JDict item)
             \<and> (py_truthy (symbol_of y) \<longrightarrow> (\<exists>k. py_hash_key (symbol_of y) = Inr k))"
    using Cons.prems by simp
  let ?key = "\<lambda>y. py_hash_key (symbol_of y)"
  let ?P = "\<lambda>sn ys i. py_truthy (symbol_of (ys ! i)) \<and> ?key (ys ! i) \<notin> Inr ` sn
                         \<and> (\<forall>j<i. ?key (ys ! j) \<noteq> ?key (ys ! i))"
  let ?R = "\<lambda>sn ys. map (\<lambda>i. ys ! i) (filter (?P sn ys) [0..<length ys])"
  have shift: "?R seen (x # xs)
      = (if ?P seen (x # xs) 0 then [x] else [])
        @ map (\<lambda>i. xs ! i) (filter (\<lambda>i. ?P seen (x # xs) (Suc i)) [0..<length xs])"
    by (rule index_filter_Cons)
  show ?case
  proof (cases "py_truthy (symbol_of x)")
    case False
    have neq: "?key x \<noteq> ?key (xs ! i)" if "i < length xs" "py_truthy (symbol_of (xs ! i))" for i
    proof
      assume e: "?key x = ?key (xs ! i)"
      from that tail obtain k where "?key (xs ! i) = Inr k" by force
      with e falsy_key_distinct [of "symbol_of x" k "symbol_of (xs ! i)"] that(2) False
      show False by simp
    qed
    have feq: "filter (\<lambda>i. ?P seen (x # xs) (Suc i)) [0..<length xs]
        = filter (?P seen xs) [0..<length xs]"
      by (rule filter_cong) (auto simp: all_less_Suc_shift neq)
    have p0: "\<not> ?P seen (x # xs) 0" using False by simp
    have R: "?R seen (x # xs) = ?R seen xs"
      unfolding shift feq using p0 by simp
    have D: "dedupe seen (x # xs) = dedupe seen xs"
      using False by (simp add: x symbol_of_def Let_def)
    show ?thesis unfolding D R by (rule Cons.IH [OF tail])
  next
    case True
    with Cons.prems obtain k where k: "?key x = Inr k" by auto
    show ?thesis
    proof (cases "k \<in> seen")
      case kin: True
      have kx: "?key x \<in> Inr ` seen" using k kin by simp
      have pw: "?P seen (x # xs) (Suc i) = ?P seen xs i" for i
      proof -
        have "?key (xs ! i) \<notin> Inr ` seen \<Longrightarrow> ?key x \<noteq> ?key (xs ! i)"
          using kx by metis
        then show ?thesis by (auto simp: all_less_Suc_shift)
      qed
      have feq: "filter (\<lambda>i. ?P seen (x # xs) (Suc i)) [0..<length xs]
          = filter (?P seen xs) [0..<length xs]"
        by (simp only: pw)
      have p0: "\<not> ?P seen (x # xs) 0" using k kin by simp
      have R: "?R seen (x # xs) = ?R seen xs"
        unfolding shift feq using p0 by simp
      have D: "dedupe seen (x # xs) = dedupe seen xs"
        using True k kin by (simp add: x symbol_of_def Let_def)
      show ?thesis unfolding D R by (rule Cons.IH [OF tail])
    next
      case knot: False
      have pw: "?P seen (x # xs) (Suc i) = ?P (insert k seen) xs i" for i
      proof -
        have "(?key (xs ! i) \<notin> Inr ` insert k seen)
            = (?key (xs ! i) \<notin> Inr ` seen \<and> ?key x \<noteq> ?key (xs ! i))"
          using k by auto
        then show ?thesis by (auto simp: all_less_Suc_shift)
      qed
      have feq: "filter (\<lambda>i. ?P seen (x # xs) (Suc i)) [0..<length xs]
          = filter (?P (insert k seen) xs) [0..<length xs]"
        by (simp only: pw)
      have p0: "?P seen (x # xs) 0" using k knot True by auto
      have R: "?R seen (x # xs) = x # ?R (insert k seen) xs"
        unfolding shift feq using p0 by simp
      have D: "dedupe seen (x # xs) =
          (case dedupe (insert k seen) xs of Inl e \<Rightarrow> Inl e | Inr ys \<Rightarrow> Inr (x # ys))"
        using True k knot unfolding x by (simp add: symbol_of_def Let_def)
      show ?thesis unfolding D R Cons.IH [OF tail, of "insert k seen"] by simp
    qed
  qed
qed

text \<open>
  Claim C6, as amended. On a sequence of dict items whose non-empty symbols are hashable
  (strings, numbers, booleans; not lists or dicts), the deduplication returns, in the
  original order, exactly the items that have a symbol value (a truthy \<open>symbol\<close>: present,
  not null, not empty, not zero or false) and whose symbol, compared as Python set
  membership compares it, occurs at no earlier position: the first occurrence of each
  distinct symbol is kept, every later one and every item without a symbol is dropped. In
  particular, of two items with the same symbol and different other fields only the first
  survives.
\<close>

theorem dedupe_first_occurrences:
  assumes "\<forall>x\<in>set xs. (\<exists>item. x = JDict item)
             \<and> (py_truthy (symbol_of x) \<longrightarrow> (\<exists>k. py_hash_key (symbol_of x) = Inr k))"
  shows "dedupe {} xs =
     Inr (map (\<lambda>i. xs ! i)
            (filter (\<lambda>i. py_truthy (symbol_of (xs ! i))
                         \<and> (\<forall>j<i. py_hash_key (symbol_of (xs ! j)) \<noteq> py_hash_key (symbol_of (xs ! i))))
                    [0..<length xs]))"
  using dedupe_index_form [OF assms, of "{}"] by simp

theorem dedupe_first_occurrences_witness:
  "dedupe {}
     [JDict [(''symbol'', JStr ''AAPL''), (''type'', JStr ''stock''), (''provider_id'', JStr ''ice'')],
      JDict [(''symbol'', JStr ''AAPL''), (''type'', JStr ''stock''), (''provider_id'', JStr ''cboe'')],
      JDict [(''type'', JStr ''stock'')],
      JDict [(''symbol'', JStr ''MSFT''), (''type'', JStr ''stock'')]]
   = Inr [JDict [(''symbol'', JStr ''AAPL''), (''type'', JStr ''stock''), (''provider_id'', JStr ''ice'')],
          JDict [(''symbol'', JStr ''MSFT''), (''type'', JStr ''stock'')]]"
proof -
  let ?xs = "[JDict [(''symbol'', JStr ''AAPL''), (''type'', JStr ''stock''), (''provider_id'', JStr ''ice'')],
      JDict [(''symbol'', JStr ''AAPL''), (''type'', JStr ''stock''), (''provider_id'', JStr ''cboe'')],
      JDict [(''type'', JStr ''stock'')],
      JDict [(''symbol'', JStr ''MSFT''), (''type'', JStr ''stock'')]]"
  have h: "\<forall>x\<in>set ?xs. (\<exists>item. x = JDict item)
             \<and> (py_truthy (symbol_of x) \<longrightarrow> (\<exists>k. py_hash_key (symbol_of x) = Inr k))"
    by (simp add: symbol_of_def dict_get_def dict_get_default_def)
  have u: "[0..<length ?xs] = [0, Suc 0, Suc (Suc 0), Suc (Suc (Suc 0))]"
    by (simp add: upt_conv_Cons)
  show ?thesis
    unfolding dedupe_first_occurrences [OF h] u
    by (simp add: symbol_of_def dict_get_def dict_get_default_def all_less_Suc_shift)
qed

text \<open>
  Claim C6, as stated for every filtered item sequence, fails. An item whose symbol is a
  non-empty list passes the filter, but the membership test of the deduplication raises
  TypeError on it: nothing is deduplicated, and the search returns the raw response. An
  item whose symbol is \<open>0\<close> is dropped although it has a symbol, and the symbols \<open>true\<close>
  and \<open>1\<close>, distinct as JSON values, count as one.
\<close>

theorem dedupe_unhashable_counterexample:
  "filter_items [JDict [(''symbol'', JList [JStr ''A'']), (''type'', JStr ''stock'')]]
     = Inr [JDict [(''symbol'', JList [JStr ''A'']), (''type'', JStr ''stock'')]]
   \<and> dedupe {} [JDict [(''symbol'', JList [JStr ''A'']), (''type'', JStr ''stock'')]]
     = Inl (TypeError (''unhashable type: '' @ sq ''list''))
   \<and> handle_success
       \<lparr>status_code = 200, content = ''raw'', resp_text = ''raw'',
        content_type_header = Some ''application/json'',
        json_body = Some (JList [JDict [(''symbol'', JList [JStr ''A'']), (''type'', JStr ''stock'')]])\<rparr>
     = (RawContent ''raw'', ''application/json'')
   \<and> dedupe {} [JDict [(''symbol'', JInt 0), (''type'', JStr ''stock'')]] = Inr []
   \<and> dedupe {} [JDict [(''symbol'', JBool True), (''type'', JStr ''stock'')],
                  JDict [(''symbol'', JInt 1), (''type'', JStr ''stock'')]]
     = Inr [JDict [(''symbol'', JBool True), (''type'', JStr ''stock'')]]"
  by (simp add: handle_success_def normalize_payload_def clean_items_def keep_def ts_lower_def
        dict_get_def dict_get_default_def py_or_def py_str_def lower_def lower_char_def sq_def)







lemma filter_example:
  "normalize_payload
     (JList [JDict [(''symbol'', JStr ''AAPL''), (''type'', JStr ''stock''), (''typespecs'', JList [])],
             JDict [(''symbol'', JStr ''BTC''), (''type'', JStr ''spot''), (''typespecs'', JList [JStr ''crypto''])],
             JDict [(''symbol'', JStr ''ETHX''), (''type'', JStr ''spot''), (''typespecs'', JList [])]])
   = Inr (Some
     (JList [JDict [(''symbol'', JStr ''AAPL''), (''type'', JStr ''stock''), (''typespecs'', JList [])],
             JDict [(''symbol'', JStr ''BTC''), (''type'', JStr ''crypto''), (''typespecs'', JList [JStr ''crypto''])]]))"
  by (simp add: normalize_payload_def clean_items_def keep_def ts_lower_def dict_get_def
        dict_get_default_def py_or_def py_str_def lower_def lower_char_def strip_tv_fields_def
        remove_keys_def)

lemma keep_rule:
  assumes "ts_lower item = Inr tsl"
  shows "keep item =
           Inr ((lower (py_str (dict_get_default item ''type'' (JStr []))) \<in> {''index'', ''forex'', ''stock''}
                   \<and> ''crypto'' \<notin> set tsl)
                \<or> (lower (py_str (dict_get_default item ''type'' (JStr []))) = ''spot''
                   \<and> ''crypto'' \<in> set tsl))"
  using assms by (auto simp: keep_def Let_def)

lemma strip_rewrites_exact_spot:
  assumes "dict_get item ''type'' = JStr ''spot''" "ts_lower item = Inr tsl" "''crypto'' \<in> set tsl"
    and "fst ` set item \<inter> remove_keys = {}"
  shows "strip_tv_fields (JDict item) = Inr (JDict (AList.update ''type'' (JStr ''crypto'') item))"
proof -
  have c: "filter (\<lambda>kv. fst kv \<notin> remove_keys) item = item"
    using assms(4) by (auto simp: filter_id_conv)
  show ?thesis using assms(1,2,3) by (simp add: strip_tv_fields_def c)
qed

text \<open>
  Claim C5, at a spot item whose category is spelled \<open>SPOT\<close>. The filter lower-cases the
  category and keeps the item as a spot item with a crypto marker, but the rewrite compares
  the category with \<open>spot\<close> as it is spelled, so the surviving item keeps the type \<open>SPOT\<close>;
  the same item spelled \<open>spot\<close> comes out with the type \<open>crypto\<close>.
\<close>

theorem uppercase_spot_not_rewritten:
  "keep [(''symbol'', JStr ''BTC''), (''type'', JStr ''SPOT''), (''typespecs'', JList [JStr ''crypto''])]
     = Inr True
   \<and> strip_tv_fields
       (JDict [(''symbol'', JStr ''BTC''), (''type'', JStr ''SPOT''), (''typespecs'', JList [JStr ''crypto''])])
     = Inr (JDict [(''symbol'', JStr ''BTC''), (''type'', JStr ''SPOT''), (''typespecs'', JList [JStr ''crypto''])])
   \<and> normalize_payload
       (JList [JDict [(''symbol'', JStr ''BTC''), (''type'', JStr ''SPOT''), (''typespecs'', JList [JStr ''crypto''])]])
     = Inr (Some
       (JList [JDict [(''symbol'', JStr ''BTC''), (''type'', JStr ''SPOT''), (''typespecs'', JList [JStr ''crypto''])]]))
   \<and> normalize_payload
       (JList [JDict [(''symbol'', JStr ''BTC''), (''type'', JStr ''spot''), (''typespecs'', JList [JStr ''crypto''])]])
     = Inr (Some
       (JList [JDict [(''symbol'', JStr ''BTC''), (''type'', JStr ''crypto''), (''typespecs'', JList [JStr ''crypto''])]]))"
  by (simp add: normalize_payload_def clean_items_def keep_def ts_lower_def dict_get_def
        dict_get_default_def py_or_def py_str_def lower_def lower_char_def strip_tv_fields_def
        remove_keys_def)

end
